theory Spec2Isabelle
  imports Main "HOL-Library.Word"
begin

unbundle bit_operations_syntax

section \<open>Scribe: a model of the commit engine\<close>

text \<open>
  The model follows the C sources function by function.  A pointer argument that may be
  \<open>NULL\<close> is an \<open>option\<close>; a function that writes through a pointer returns the new
  content; \<open>scribe_error_t\<close> is a datatype and every early \<open>return\<close> is a branch.

  These things lie outside the repository and are not fixed by its sources:
  \<^item> the digest computed by OpenSSL's \<open>EVP_sha256\<close>,
  \<^item> the text produced by \<open>yyjson_mut_write\<close> for a document
    (\<open>None\<close> when it refuses the document),
  \<^item> the clock read by \<open>time(NULL)\<close>,
  \<^item> the content of a local \<open>scribe_hash_t\<close> that the code reads without having
    initialised it,
  \<^item> where in the frame of \<open>scribe_envelope_to_json\<close> the compiler puts each of its five
    block-local arrays \<open>hex\<close>,
  \<^item> whether an acquisition of a resource (\<open>malloc\<close>, \<open>calloc\<close>, \<open>realloc\<close>,
    \<open>strdup\<close>, a digest context, a JSON document, a prepared statement) succeeds.
  The first five are the fields of a record \<open>ext\<close> that every function using them takes
  as its first argument, so a theorem holds for whatever they are.  The last is a script
  of outcomes, consumed one entry per acquisition in program order; the empty script means
  that every acquisition succeeds.
\<close>

subsection \<open>error.h, types.h\<close>

datatype scribe_error_t =
    SCRIBE_OK
  | SCRIBE_ERR_NOMEM
  | SCRIBE_ERR_INVALID_ARG
  | SCRIBE_ERR_NOT_FOUND
  | SCRIBE_ERR_NOT_A_REPO
  | SCRIBE_ERR_REPO_EXISTS
  | SCRIBE_ERR_REPO_CORRUPT
  | SCRIBE_ERR_IO
  | SCRIBE_ERR_DB
  | SCRIBE_ERR_OBJECT_MISSING
  | SCRIBE_ERR_HASH_MISMATCH
  | SCRIBE_ERR_CRYPTO
  | SCRIBE_ERR_PG_CONNECT
  | SCRIBE_ERR_PG_QUERY
  | SCRIBE_ERR_PG_REPLICATION
  | SCRIBE_ERR_JSON_PARSE
  | SCRIBE_ERR_JSON_SCHEMA

type_synonym u8 = "8 word"

text \<open>\<open>scribe_hash_t\<close> is \<open>struct { uint8_t bytes[32]; }\<close>: exactly 32 bytes.\<close>

typedef scribe_hash_t = "{bs :: u8 list. length bs = 32}"
  morphisms bytes Hash
  by (rule exI [of _ "replicate 32 0"]) simp

setup_lifting type_definition_scribe_hash_t

definition SCRIBE_ZERO_HASH :: scribe_hash_t where
  "SCRIBE_ZERO_HASH = Hash (replicate 32 0)"

subsection \<open>Outcomes of resource acquisitions\<close>

type_synonym faults = "bool list"

fun attempt :: "faults \<Rightarrow> bool \<times> faults" where
  "attempt [] = (True, [])"
| "attempt (b # bs) = (b, bs)"

subsection \<open>External functions\<close>

text \<open>
  A mutable yyjson value.  \<open>yyjson_mut_obj_add_str\<close> does not copy the string it is given:
  the value keeps the pointer, and the text is read when the document is written.  A string
  of the envelope itself is still unchanged at that moment, so \<open>JStr\<close> carries its text; a
  string in a buffer of the caller's frame is \<open>JRef\<close>, the place of the buffer.
\<close>

datatype yyjson_mut_val =
    JStr string
  | JRef nat
  | JInt int
  | JObj "(string \<times> yyjson_mut_val) list"
  | JArr "yyjson_mut_val list"

text \<open>
  The five blocks of \<open>scribe_envelope_to_json\<close> that declare \<open>char hex[SCRIBE_HASH_HEX_SIZE]\<close>,
  named after the digest they convert.
\<close>

datatype hex_block = Hex_commit_id | Hex_parent_id | Hex_tree_hash | Hex_before_hash | Hex_after_hash

record ext =
  EVP_sha256 :: "u8 list \<Rightarrow> scribe_hash_t"
  yyjson_mut_write :: "yyjson_mut_val \<Rightarrow> string option"
  time_now :: "64 word"
  uninit_hash :: scribe_hash_t
  hex_slot :: "hex_block \<Rightarrow> nat"

definition str_bytes :: "string \<Rightarrow> u8 list" where
  "str_bytes s = map of_char s"

subsection \<open>core/hash.c\<close>

definition scribe_hash_is_zero :: "scribe_hash_t option \<Rightarrow> bool" where
  "scribe_hash_is_zero hash =
     (case hash of None \<Rightarrow> True | Some h \<Rightarrow> bytes h = bytes SCRIBE_ZERO_HASH)"

definition scribe_hash_equal :: "scribe_hash_t option \<Rightarrow> scribe_hash_t option \<Rightarrow> bool" where
  "scribe_hash_equal a b =
     (case (a, b) of (Some x, Some y) \<Rightarrow> bytes x = bytes y | _ \<Rightarrow> False)"

text \<open>\<open>scribe_hash_copy dst src\<close>: the new content of \<open>dst\<close> (no-op when \<open>src\<close> is null).\<close>

definition scribe_hash_copy :: "scribe_hash_t \<Rightarrow> scribe_hash_t option \<Rightarrow> scribe_hash_t" where
  "scribe_hash_copy dst src = (case src of None \<Rightarrow> dst | Some s \<Rightarrow> Hash (bytes s))"

text \<open>
  The three digest functions take the current content of \<open>out_hash\<close> and return the
  error code, the new content and the rest of the script.  One entry of the script stands
  for the OpenSSL calls of one digest; when they fail \<open>out_hash\<close> is left as it was.
\<close>

definition scribe_hash_bytes ::
  "ext \<Rightarrow> faults \<Rightarrow> u8 list \<Rightarrow> scribe_hash_t \<Rightarrow> scribe_error_t \<times> scribe_hash_t \<times> faults" where
  "scribe_hash_bytes L a data out_hash =
     (case attempt a of
        (False, a1) \<Rightarrow> (SCRIBE_ERR_CRYPTO, out_hash, a1)
      | (True, a1) \<Rightarrow> (SCRIBE_OK, EVP_sha256 L data, a1))"

definition scribe_hash_combine ::
  "ext \<Rightarrow> faults \<Rightarrow> scribe_hash_t \<Rightarrow> scribe_hash_t \<Rightarrow> scribe_hash_t
     \<Rightarrow> scribe_error_t \<times> scribe_hash_t \<times> faults" where
  "scribe_hash_combine L a left right out_hash =
     (case attempt a of
        (False, a1) \<Rightarrow> (SCRIBE_ERR_CRYPTO, out_hash, a1)
      | (True, a1) \<Rightarrow> (SCRIBE_OK, EVP_sha256 L (0x01 # bytes left @ bytes right), a1))"

definition scribe_hash_leaf ::
  "ext \<Rightarrow> faults \<Rightarrow> u8 list \<Rightarrow> scribe_hash_t \<Rightarrow> scribe_error_t \<times> scribe_hash_t \<times> faults" where
  "scribe_hash_leaf L a data out_hash =
     (case attempt a of
        (False, a1) \<Rightarrow> (SCRIBE_ERR_CRYPTO, out_hash, a1)
      | (True, a1) \<Rightarrow> (SCRIBE_OK, EVP_sha256 L (0x00 # data), a1))"

definition hex_chars :: string where
  "hex_chars = ''0123456789abcdef''"

definition scribe_hash_to_hex :: "scribe_hash_t \<Rightarrow> string" where
  "scribe_hash_to_hex hash =
     concat (map (\<lambda>b. [hex_chars ! unat (drop_bit 4 b AND 0x0F), hex_chars ! unat (b AND 0x0F)])
                 (bytes hash))"

definition isxdigit :: "char \<Rightarrow> bool" where
  "isxdigit c = (let n = (of_char c :: nat) in
     (48 \<le> n \<and> n \<le> 57) \<or> (97 \<le> n \<and> n \<le> 102) \<or> (65 \<le> n \<and> n \<le> 70))"

definition hex_val :: "char \<Rightarrow> u8" where
  "hex_val c = (let n = (of_char c :: nat) in
     if 97 \<le> n then word_of_nat (n - 97 + 10)
     else if 65 \<le> n then word_of_nat (n - 65 + 10)
     else word_of_nat (n - 48))"

text \<open>
  The loop of \<open>scribe_hash_from_hex\<close> over the 32 byte positions: it writes byte \<open>i\<close> from
  the characters \<open>2i\<close> and \<open>2i+1\<close> and returns at the first character that is no hex digit,
  leaving the bytes written so far in place.
\<close>

fun from_hex_loop :: "string \<Rightarrow> u8 list \<Rightarrow> scribe_error_t \<times> u8 list" where
  "from_hex_loop (high # low # hex) (b # out) =
     (if \<not> isxdigit high \<or> \<not> isxdigit low then (SCRIBE_ERR_INVALID_ARG, b # out)
      else (case from_hex_loop hex out of
              (e, out') \<Rightarrow> (e, (push_bit 4 (hex_val high) OR hex_val low) # out')))"
| "from_hex_loop _ out = (SCRIBE_OK, out)"

definition scribe_hash_from_hex ::
  "string option \<Rightarrow> scribe_hash_t \<Rightarrow> scribe_error_t \<times> scribe_hash_t" where
  "scribe_hash_from_hex hex out_hash =
     (case hex of
        None \<Rightarrow> (SCRIBE_ERR_INVALID_ARG, out_hash)
      | Some s \<Rightarrow>
          if length s \<noteq> 64 then (SCRIBE_ERR_INVALID_ARG, out_hash)
          else (case from_hex_loop s (bytes out_hash) of (e, bs) \<Rightarrow> (e, Hash bs)))"


subsection \<open>libc\<close>

definition strdup :: "faults \<Rightarrow> string \<Rightarrow> string option \<times> faults" where
  "strdup a s = (case attempt a of (True, a1) \<Rightarrow> (Some s, a1) | (False, a1) \<Rightarrow> (None, a1))"

subsection \<open>core/merkle.c\<close>

datatype scribe_merkle_node_t =
  MerkleNode
    (node_hash: scribe_hash_t)
    (node_left: "scribe_merkle_node_t option")
    (node_right: "scribe_merkle_node_t option")
    (node_field_name: "string option")
    (node_data: "u8 list option")
    (node_is_leaf: bool)

record scribe_merkle_tree_t =
  leaves :: "scribe_merkle_node_t list"
  leaf_capacity :: nat
  root :: "scribe_merkle_node_t option"
  built :: bool

text \<open>\<open>leaf_count\<close> is the length of \<open>leaves\<close>; a node fresh from \<open>calloc\<close> is all zero.\<close>

definition calloc_node :: scribe_merkle_node_t where
  "calloc_node = MerkleNode SCRIBE_ZERO_HASH None None None None False"

definition create_leaf_node ::
  "ext \<Rightarrow> faults \<Rightarrow> string option \<Rightarrow> u8 list option \<Rightarrow> scribe_merkle_node_t option \<times> faults" where
  "create_leaf_node L a field_name data =
     (case attempt a of
        (False, a1) \<Rightarrow> (None, a1)
      | (True, a1) \<Rightarrow>
          (case (case field_name of None \<Rightarrow> (None, a1) | Some s \<Rightarrow> strdup a1 s) of (fname, a2) \<Rightarrow>
           (case (if data \<noteq> None \<and> length (the data) > 0 then attempt a2 else (True, a2)) of
              (False, a3) \<Rightarrow> (None, a3)
            | (True, a3) \<Rightarrow>
                (case scribe_hash_leaf L a3 (case data of None \<Rightarrow> [] | Some d \<Rightarrow> d) SCRIBE_ZERO_HASH of
                   (e, h, a4) \<Rightarrow>
                     (Some (MerkleNode h None None fname
                              (if data \<noteq> None \<and> length (the data) > 0 then data else None) True), a4)))))"

definition scribe_merkle_tree_new :: "faults \<Rightarrow> scribe_merkle_tree_t option \<times> faults" where
  "scribe_merkle_tree_new a =
     (case attempt a of
        (False, a1) \<Rightarrow> (None, a1)
      | (True, a1) \<Rightarrow>
          (case attempt a1 of
             (False, a2) \<Rightarrow> (None, a2)
           | (True, a2) \<Rightarrow>
               (Some \<lparr>leaves = [], leaf_capacity = 16, root = None, built = False\<rparr>, a2)))"

text \<open>"Expand if needed": the \<open>realloc\<close> shared by \<open>add_field\<close> and \<open>add_hash\<close>.\<close>

definition expand_leaves :: "faults \<Rightarrow> scribe_merkle_tree_t \<Rightarrow> scribe_merkle_tree_t option \<times> faults" where
  "expand_leaves a t =
     (if length (leaves t) \<ge> leaf_capacity t then
        (case attempt a of
           (False, a1) \<Rightarrow> (None, a1)
         | (True, a1) \<Rightarrow> (Some (t\<lparr>leaf_capacity := leaf_capacity t * 2\<rparr>), a1))
      else (Some t, a))"

definition scribe_merkle_add_field ::
  "ext \<Rightarrow> faults \<Rightarrow> scribe_merkle_tree_t option \<Rightarrow> string option \<Rightarrow> u8 list option
     \<Rightarrow> scribe_error_t \<times> scribe_merkle_tree_t option \<times> faults" where
  "scribe_merkle_add_field L a tree field_name data =
     (case tree of
        None \<Rightarrow> (SCRIBE_ERR_INVALID_ARG, None, a)
      | Some t \<Rightarrow>
          if built t then (SCRIBE_ERR_INVALID_ARG, Some t, a)
          else (case expand_leaves a t of
                  (None, a1) \<Rightarrow> (SCRIBE_ERR_NOMEM, Some t, a1)
                | (Some t1, a1) \<Rightarrow>
                    (case create_leaf_node L a1 field_name data of
                       (None, a2) \<Rightarrow> (SCRIBE_ERR_NOMEM, Some t1, a2)
                     | (Some node, a2) \<Rightarrow>
                         (SCRIBE_OK, Some (t1\<lparr>leaves := leaves t1 @ [node]\<rparr>), a2))))"

definition scribe_merkle_add_hash ::
  "faults \<Rightarrow> scribe_merkle_tree_t option \<Rightarrow> string option \<Rightarrow> scribe_hash_t option
     \<Rightarrow> scribe_error_t \<times> scribe_merkle_tree_t option \<times> faults" where
  "scribe_merkle_add_hash a tree field_name hash =
     (case (tree, hash) of
        (Some t, Some h) \<Rightarrow>
          if built t then (SCRIBE_ERR_INVALID_ARG, Some t, a)
          else (case expand_leaves a t of
                  (None, a1) \<Rightarrow> (SCRIBE_ERR_NOMEM, Some t, a1)
                | (Some t1, a1) \<Rightarrow>
                    (case attempt a1 of
                       (False, a2) \<Rightarrow> (SCRIBE_ERR_NOMEM, Some t1, a2)
                     | (True, a2) \<Rightarrow>
                         (case (case field_name of None \<Rightarrow> (None, a2) | Some s \<Rightarrow> strdup a2 s) of
                            (fname, a3) \<Rightarrow>
                              (SCRIBE_OK,
                               Some (t1\<lparr>leaves := leaves t1 @
                                  [MerkleNode (scribe_hash_copy SCRIBE_ZERO_HASH (Some h))
                                     None None fname None True]\<rparr>),
                               a3))))
      | _ \<Rightarrow> (SCRIBE_ERR_INVALID_ARG, tree, a))"

text \<open>
  The \<open>for\<close> loop of \<open>scribe_merkle_build\<close> over one level: node \<open>2i\<close> is paired with
  node \<open>2i+1\<close>, or with itself (right child \<open>NULL\<close>) when \<open>2i+1\<close> is past the end.
  \<open>None\<close> is the \<open>calloc\<close> failure that makes the build return \<open>SCRIBE_ERR_NOMEM\<close>.
\<close>

fun build_level :: "ext \<Rightarrow> faults \<Rightarrow> scribe_merkle_node_t list \<Rightarrow> scribe_merkle_node_t list option \<times> faults" where
  "build_level L a [] = (Some [], a)"
| "build_level L a [l] =
     (case attempt a of
        (False, a1) \<Rightarrow> (None, a1)
      | (True, a1) \<Rightarrow>
          (case scribe_hash_combine L a1 (node_hash l) (node_hash l) SCRIBE_ZERO_HASH of
             (e, h, a2) \<Rightarrow> (Some [MerkleNode h (Some l) None None None False], a2)))"
| "build_level L a (l # r # rest) =
     (case attempt a of
        (False, a1) \<Rightarrow> (None, a1)
      | (True, a1) \<Rightarrow>
          (case scribe_hash_combine L a1 (node_hash l) (node_hash r) SCRIBE_ZERO_HASH of
             (e, h, a2) \<Rightarrow>
               (case build_level L a2 rest of
                  (None, a3) \<Rightarrow> (None, a3)
                | (Some ps, a3) \<Rightarrow> (Some (MerkleNode h (Some l) (Some r) None None False # ps), a3))))"

text \<open>The \<open>while (level_size > 1)\<close> loop: one \<open>malloc\<close> for the next level, then the level.\<close>

function build_levels :: "ext \<Rightarrow> faults \<Rightarrow> scribe_merkle_node_t list \<Rightarrow> scribe_merkle_node_t list option \<times> faults" where
  "build_levels L a current_level =
     (if length current_level > 1 then
        (case attempt a of
           (False, a1) \<Rightarrow> (None, a1)
         | (True, a1) \<Rightarrow>
             (case build_level L a1 current_level of
                (None, a2) \<Rightarrow> (None, a2)
              | (Some next_level, a2) \<Rightarrow> build_levels L a2 next_level))
      else (Some current_level, a))"
  by pat_completeness auto
termination
proof -
  have len: "length nl = (length lv + 1) div 2"
    if "build_level L a lv = (Some nl, a')" for L a lv nl a'
    using that
    by (induction L a lv arbitrary: nl a' rule: build_level.induct)
       (auto split: prod.splits bool.splits option.splits)
  show ?thesis
    by (relation "measure (\<lambda>(L, a, lv). length lv)") (auto dest!: len [OF sym])
qed

declare build_levels.simps [simp del]

definition scribe_merkle_build ::
  "ext \<Rightarrow> faults \<Rightarrow> scribe_merkle_tree_t option \<Rightarrow> scribe_error_t \<times> scribe_merkle_tree_t option \<times> faults" where
  "scribe_merkle_build L a tree =
     (case tree of
        None \<Rightarrow> (SCRIBE_ERR_INVALID_ARG, None, a)
      | Some t \<Rightarrow>
          if built t then (SCRIBE_OK, Some t, a)
          else if length (leaves t) = 0 then
            (case attempt a of
               (False, a1) \<Rightarrow> (SCRIBE_ERR_NOMEM, Some t, a1)
             | (True, a1) \<Rightarrow> (SCRIBE_OK, Some (t\<lparr>root := Some calloc_node, built := True\<rparr>), a1))
          else if length (leaves t) = 1 then
            (SCRIBE_OK, Some (t\<lparr>root := Some (leaves t ! 0), built := True\<rparr>), a)
          else
            (case attempt a of
               (False, a1) \<Rightarrow> (SCRIBE_ERR_NOMEM, Some t, a1)
             | (True, a1) \<Rightarrow>
                 (case build_levels L a1 (leaves t) of
                    (None, a2) \<Rightarrow> (SCRIBE_ERR_NOMEM, Some t, a2)
                  | (Some current_level, a2) \<Rightarrow>
                      (SCRIBE_OK, Some (t\<lparr>root := Some (current_level ! 0), built := True\<rparr>), a2))))"

definition scribe_merkle_root :: "scribe_merkle_tree_t option \<Rightarrow> scribe_hash_t option" where
  "scribe_merkle_root tree =
     (case tree of
        None \<Rightarrow> None
      | Some t \<Rightarrow> (case root t of None \<Rightarrow> None | Some n \<Rightarrow> Some (node_hash n)))"

definition scribe_merkle_leaf_count :: "scribe_merkle_tree_t option \<Rightarrow> nat" where
  "scribe_merkle_leaf_count tree = (case tree of None \<Rightarrow> 0 | Some t \<Rightarrow> length (leaves t))"

record scribe_merkle_proof_t =
  hashes :: "scribe_hash_t list"
  positions :: "int list"
  depth :: nat

text \<open>"Calculate tree depth": \<open>while (n > 1) { n = (n + 1) / 2; depth++; }\<close>.\<close>

function tree_depth :: "nat \<Rightarrow> nat \<Rightarrow> nat" where
  "tree_depth n d = (if n > 1 then tree_depth ((n + 1) div 2) (d + 1) else d)"
  by pat_completeness auto
termination
  by (relation "measure (\<lambda>(n, d). n)") auto

declare tree_depth.simps [simp del]

definition scribe_merkle_proof_create ::
  "faults \<Rightarrow> scribe_merkle_tree_t option \<Rightarrow> nat \<Rightarrow> scribe_merkle_proof_t option \<times> faults" where
  "scribe_merkle_proof_create a tree leaf_index =
     (case tree of
        None \<Rightarrow> (None, a)
      | Some t \<Rightarrow>
          if \<not> built t \<or> leaf_index \<ge> length (leaves t) then (None, a)
          else
            (let d = tree_depth (length (leaves t)) 0 in
             case attempt a of
               (False, a1) \<Rightarrow> (None, a1)
             | (True, a1) \<Rightarrow>
                 (case attempt a1 of (ok_hashes, a2) \<Rightarrow>
                  (case attempt a2 of (ok_positions, a3) \<Rightarrow>
                     if \<not> ok_hashes \<or> \<not> ok_positions then (None, a3)
                     else (Some \<lparr>hashes = replicate d SCRIBE_ZERO_HASH,
                                 positions = replicate d 0, depth = d\<rparr>, a3)))))"

text \<open>
  The loop of \<open>scribe_merkle_proof_verify\<close> from level \<open>i\<close> up to \<open>depth\<close>, on \<open>current\<close>.
  \<open>combined\<close> is an uninitialised local, which keeps its content when the digest fails.
\<close>

function proof_verify_loop ::
  "ext \<Rightarrow> faults \<Rightarrow> scribe_merkle_proof_t \<Rightarrow> nat \<Rightarrow> scribe_hash_t \<Rightarrow> scribe_hash_t \<times> faults" where
  "proof_verify_loop L a proof i current =
     (if i < depth proof then
        (case (if positions proof ! i = 0
               then scribe_hash_combine L a current (hashes proof ! i) (uninit_hash L)
               else scribe_hash_combine L a (hashes proof ! i) current (uninit_hash L)) of
           (e, combined, a1) \<Rightarrow> proof_verify_loop L a1 proof (i + 1) combined)
      else (current, a))"
  by pat_completeness auto
termination
  by (relation "measure (\<lambda>(L, a, p, i, c). depth p - i)") auto

declare proof_verify_loop.simps [simp del]

definition scribe_merkle_proof_verify ::
  "ext \<Rightarrow> faults \<Rightarrow> scribe_merkle_proof_t option \<Rightarrow> scribe_hash_t option
     \<Rightarrow> scribe_hash_t option \<Rightarrow> bool \<times> faults" where
  "scribe_merkle_proof_verify L a proof leaf_hash root_hash =
     (case (proof, leaf_hash, root_hash) of
        (Some p, Some lh, Some rh) \<Rightarrow>
          (case proof_verify_loop L a p 0 (scribe_hash_copy (uninit_hash L) (Some lh)) of
             (current, a1) \<Rightarrow> (scribe_hash_equal (Some current) (Some rh), a1))
      | _ \<Rightarrow> (False, a))"


subsection \<open>core/envelope.c\<close>

record scribe_author_t =
  author_id :: "string option"
  author_role :: "string option"
  author_email :: "string option"

record scribe_process_t =
  proc_name :: "string option"
  proc_version :: "string option"
  proc_params :: "string option"
  proc_source :: "string option"

record scribe_change_t =
  table_name :: "string option"
  operation :: "string option"
  primary_key :: "string option"
  before_hash :: scribe_hash_t
  after_hash :: scribe_hash_t

text \<open>\<open>change_count\<close> is the length of \<open>changes\<close>.\<close>

record scribe_envelope_t =
  commit_id :: scribe_hash_t
  parent_id :: scribe_hash_t
  tree_hash :: scribe_hash_t
  author :: scribe_author_t
  process :: scribe_process_t
  timestamp :: "64 word"
  message :: "string option"
  changes :: "scribe_change_t list"
  change_capacity :: nat

definition safe_strdup :: "faults \<Rightarrow> string option \<Rightarrow> string option \<times> faults" where
  "safe_strdup a s = (case s of None \<Rightarrow> (None, a) | Some x \<Rightarrow> strdup a x)"

definition scribe_envelope_new :: "ext \<Rightarrow> faults \<Rightarrow> scribe_envelope_t option \<times> faults" where
  "scribe_envelope_new L a =
     (case attempt a of
        (False, a1) \<Rightarrow> (None, a1)
      | (True, a1) \<Rightarrow>
          (case attempt a1 of
             (False, a2) \<Rightarrow> (None, a2)
           | (True, a2) \<Rightarrow>
               (Some \<lparr>commit_id = SCRIBE_ZERO_HASH, parent_id = SCRIBE_ZERO_HASH,
                      tree_hash = SCRIBE_ZERO_HASH,
                      author = \<lparr>author_id = None, author_role = None, author_email = None\<rparr>,
                      process = \<lparr>proc_name = None, proc_version = None, proc_params = None,
                                 proc_source = None\<rparr>,
                      timestamp = time_now L, message = None, changes = [],
                      change_capacity = 8\<rparr>, a2)))"

definition scribe_envelope_set_author ::
  "faults \<Rightarrow> scribe_envelope_t option \<Rightarrow> string option \<Rightarrow> string option
     \<Rightarrow> scribe_error_t \<times> scribe_envelope_t option \<times> faults" where
  "scribe_envelope_set_author a env ident role =
     (case env of
        None \<Rightarrow> (SCRIBE_ERR_INVALID_ARG, None, a)
      | Some e \<Rightarrow>
          (case safe_strdup a ident of (i, a1) \<Rightarrow>
           (case safe_strdup a1 role of (r, a2) \<Rightarrow>
              (SCRIBE_OK, Some (e\<lparr>author := (author e)\<lparr>author_id := i, author_role := r\<rparr>\<rparr>), a2))))"

definition scribe_envelope_set_author_email ::
  "faults \<Rightarrow> scribe_envelope_t option \<Rightarrow> string option
     \<Rightarrow> scribe_error_t \<times> scribe_envelope_t option \<times> faults" where
  "scribe_envelope_set_author_email a env email =
     (case env of
        None \<Rightarrow> (SCRIBE_ERR_INVALID_ARG, None, a)
      | Some e \<Rightarrow>
          (case safe_strdup a email of (m, a1) \<Rightarrow>
             (SCRIBE_OK, Some (e\<lparr>author := (author e)\<lparr>author_email := m\<rparr>\<rparr>), a1)))"

definition scribe_envelope_set_process ::
  "faults \<Rightarrow> scribe_envelope_t option \<Rightarrow> string option \<Rightarrow> string option \<Rightarrow> string option
     \<Rightarrow> scribe_error_t \<times> scribe_envelope_t option \<times> faults" where
  "scribe_envelope_set_process a env name version params =
     (case env of
        None \<Rightarrow> (SCRIBE_ERR_INVALID_ARG, None, a)
      | Some e \<Rightarrow>
          (case safe_strdup a name of (n, a1) \<Rightarrow>
           (case safe_strdup a1 version of (v, a2) \<Rightarrow>
            (case safe_strdup a2 params of (p, a3) \<Rightarrow>
               (SCRIBE_OK,
                Some (e\<lparr>process := (process e)\<lparr>proc_name := n, proc_version := v, proc_params := p\<rparr>\<rparr>),
                a3)))))"

definition scribe_envelope_set_process_source ::
  "faults \<Rightarrow> scribe_envelope_t option \<Rightarrow> string option
     \<Rightarrow> scribe_error_t \<times> scribe_envelope_t option \<times> faults" where
  "scribe_envelope_set_process_source a env source =
     (case env of
        None \<Rightarrow> (SCRIBE_ERR_INVALID_ARG, None, a)
      | Some e \<Rightarrow>
          (case safe_strdup a source of (s, a1) \<Rightarrow>
             (SCRIBE_OK, Some (e\<lparr>process := (process e)\<lparr>proc_source := s\<rparr>\<rparr>), a1)))"

definition scribe_envelope_set_parent ::
  "scribe_envelope_t option \<Rightarrow> scribe_hash_t option \<Rightarrow> scribe_error_t \<times> scribe_envelope_t option" where
  "scribe_envelope_set_parent env parent =
     (case env of
        None \<Rightarrow> (SCRIBE_ERR_INVALID_ARG, None)
      | Some e \<Rightarrow>
          (case parent of
             Some p \<Rightarrow> (SCRIBE_OK, Some (e\<lparr>parent_id := scribe_hash_copy (parent_id e) (Some p)\<rparr>))
           | None \<Rightarrow> (SCRIBE_OK, Some (e\<lparr>parent_id := SCRIBE_ZERO_HASH\<rparr>))))"

definition scribe_envelope_set_message ::
  "faults \<Rightarrow> scribe_envelope_t option \<Rightarrow> string option
     \<Rightarrow> scribe_error_t \<times> scribe_envelope_t option \<times> faults" where
  "scribe_envelope_set_message a env msg =
     (case env of
        None \<Rightarrow> (SCRIBE_ERR_INVALID_ARG, None, a)
      | Some e \<Rightarrow>
          (case safe_strdup a msg of (m, a1) \<Rightarrow> (SCRIBE_OK, Some (e\<lparr>message := m\<rparr>), a1)))"

definition scribe_envelope_set_tree_hash ::
  "scribe_envelope_t option \<Rightarrow> scribe_hash_t option \<Rightarrow> scribe_error_t \<times> scribe_envelope_t option" where
  "scribe_envelope_set_tree_hash env th =
     (case env of
        None \<Rightarrow> (SCRIBE_ERR_INVALID_ARG, None)
      | Some e \<Rightarrow>
          (case th of
             Some h \<Rightarrow> (SCRIBE_OK, Some (e\<lparr>tree_hash := scribe_hash_copy (tree_hash e) (Some h)\<rparr>))
           | None \<Rightarrow> (SCRIBE_OK, Some (e\<lparr>tree_hash := SCRIBE_ZERO_HASH\<rparr>))))"

definition scribe_envelope_add_change ::
  "faults \<Rightarrow> scribe_envelope_t option \<Rightarrow> string option \<Rightarrow> string option \<Rightarrow> string option
     \<Rightarrow> scribe_hash_t option \<Rightarrow> scribe_hash_t option
     \<Rightarrow> scribe_error_t \<times> scribe_envelope_t option \<times> faults" where
  "scribe_envelope_add_change a env tbl op pk before after =
     (case env of
        None \<Rightarrow> (SCRIBE_ERR_INVALID_ARG, None, a)
      | Some e \<Rightarrow>
          (case (if length (changes e) \<ge> change_capacity e
                 then (case attempt a of
                         (False, a1) \<Rightarrow> (None, a1)
                       | (True, a1) \<Rightarrow> (Some (e\<lparr>change_capacity := change_capacity e * 2\<rparr>), a1))
                 else (Some e, a)) of
             (None, a1) \<Rightarrow> (SCRIBE_ERR_NOMEM, Some e, a1)
           | (Some e1, a1) \<Rightarrow>
               (case safe_strdup a1 tbl of (t, a2) \<Rightarrow>
                (case safe_strdup a2 op of (opr, a3) \<Rightarrow>
                 (case safe_strdup a3 pk of (k, a4) \<Rightarrow>
                    (SCRIBE_OK,
                     Some (e1\<lparr>changes := changes e1 @
                        [\<lparr>table_name = t, operation = opr, primary_key = k,
                          before_hash = scribe_hash_copy SCRIBE_ZERO_HASH before,
                          after_hash = scribe_hash_copy SCRIBE_ZERO_HASH after\<rparr>]\<rparr>),
                     a4))))))"

text \<open>One optional string member of a JSON object: \<open>if (s) yyjson_mut_obj_add_str(...)\<close>.\<close>

definition add_str :: "string \<Rightarrow> string option \<Rightarrow> (string \<times> yyjson_mut_val) list" where
  "add_str key s = (case s of None \<Rightarrow> [] | Some v \<Rightarrow> [(key, JStr v)])"

text \<open>
  The frame of \<open>scribe_envelope_to_json\<close>: the text held at each place where an array
  \<open>hex\<close> lives.  The arrays have disjoint lifetimes, so a compiler may give several of them
  the same place; the two in the loop body are at the same place in every iteration.  The
  writer reads the arrays after their blocks have ended; the model takes a place to hold
  then the text last put there.
\<close>

type_synonym frame = "nat \<Rightarrow> string"

text \<open>
  One digest member: unless the digest is zero, its hex text is put into the array of the
  block and the member added to the object refers to that array.
\<close>

definition add_hex ::
  "ext \<Rightarrow> hex_block \<Rightarrow> string \<Rightarrow> scribe_hash_t \<Rightarrow> frame \<Rightarrow> (string \<times> yyjson_mut_val) list \<times> frame" where
  "add_hex L b key h fr =
     (if \<not> scribe_hash_is_zero (Some h)
      then ([(key, JRef (hex_slot L b))], fr(hex_slot L b := scribe_hash_to_hex h))
      else ([], fr))"

text \<open>The body of the loop over the changes, and the loop.\<close>

definition change_json :: "ext \<Rightarrow> scribe_change_t \<Rightarrow> frame \<Rightarrow> yyjson_mut_val \<times> frame" where
  "change_json L c fr =
     (case add_hex L Hex_before_hash ''before_hash'' (before_hash c) fr of (bm, fr1) \<Rightarrow>
      (case add_hex L Hex_after_hash ''after_hash'' (after_hash c) fr1 of (am, fr2) \<Rightarrow>
         (JObj (add_str ''table'' (table_name c) @ add_str ''operation'' (operation c) @
                add_str ''pk'' (primary_key c) @ bm @ am),
          fr2)))"

fun changes_json :: "ext \<Rightarrow> scribe_change_t list \<Rightarrow> frame \<Rightarrow> yyjson_mut_val list \<times> frame" where
  "changes_json L [] fr = ([], fr)"
| "changes_json L (c # cs) fr =
     (case change_json L c fr of (v, fr1) \<Rightarrow>
      (case changes_json L cs fr1 of (vs, fr2) \<Rightarrow> (v # vs, fr2)))"

text \<open>
  The document that \<open>scribe_envelope_to_json\<close> has built when it calls the writer, and the
  frame at that moment.  No array \<open>hex\<close> is read before it has been filled, so the content
  the frame starts with does not matter.
\<close>

definition envelope_build :: "ext \<Rightarrow> scribe_envelope_t \<Rightarrow> yyjson_mut_val \<times> frame" where
  "envelope_build L env =
     (case add_hex L Hex_commit_id ''commit_id'' (commit_id env) (\<lambda>p. []) of (cm, fr1) \<Rightarrow>
      (case add_hex L Hex_parent_id ''parent_id'' (parent_id env) fr1 of (pm, fr2) \<Rightarrow>
       (case add_hex L Hex_tree_hash ''tree_hash'' (tree_hash env) fr2 of (tm, fr3) \<Rightarrow>
        (case (if length (changes env) > 0
               then (case changes_json L (changes env) fr3 of
                       (vs, fr4) \<Rightarrow> ([(''changes'', JArr vs)], fr4))
               else ([], fr3)) of
           (chm, fr4) \<Rightarrow>
             (JObj (cm @ pm @ tm @
                [(''author'', JObj (add_str ''id'' (author_id (author env)) @
                                    add_str ''role'' (author_role (author env)) @
                                    add_str ''email'' (author_email (author env))))] @
                [(''process'', JObj (add_str ''name'' (proc_name (process env)) @
                                     add_str ''version'' (proc_version (process env)) @
                                     add_str ''params'' (proc_params (process env)) @
                                     add_str ''source'' (proc_source (process env))))] @
                [(''timestamp'', JInt (sint (timestamp env)))] @
                add_str ''message'' (message env) @
                chm),
              fr4)))))"

text \<open>What the writer reads: every reference replaced by the text now at its place.\<close>

primrec deref :: "frame \<Rightarrow> yyjson_mut_val \<Rightarrow> yyjson_mut_val" where
  "deref fr (JStr s) = JStr s"
| "deref fr (JRef p) = JStr (fr p)"
| "deref fr (JInt i) = JInt i"
| "deref fr (JObj ms) = JObj (map (map_prod id (deref fr)) ms)"
| "deref fr (JArr vs) = JArr (map (deref fr) vs)"

definition envelope_doc :: "ext \<Rightarrow> scribe_envelope_t \<Rightarrow> yyjson_mut_val" where
  "envelope_doc L env = (case envelope_build L env of (doc, fr) \<Rightarrow> deref fr doc)"

definition scribe_envelope_to_json ::
  "ext \<Rightarrow> faults \<Rightarrow> scribe_envelope_t option \<Rightarrow> string option \<times> faults" where
  "scribe_envelope_to_json L a env =
     (case env of
        None \<Rightarrow> (None, a)
      | Some e \<Rightarrow>
          (case attempt a of
             (False, a1) \<Rightarrow> (None, a1)
           | (True, a1) \<Rightarrow>
               (case attempt a1 of
                  (False, a2) \<Rightarrow> (None, a2)
                | (True, a2) \<Rightarrow> (yyjson_mut_write L (envelope_doc L e), a2))))"

text \<open>The loop of \<open>scribe_envelope_clone\<close> over the changes; results of \<open>add_change\<close> are ignored.\<close>

fun clone_changes :: "faults \<Rightarrow> scribe_envelope_t option \<Rightarrow> scribe_change_t list \<Rightarrow> scribe_envelope_t option \<times> faults" where
  "clone_changes a clone [] = (clone, a)"
| "clone_changes a clone (c # cs) =
     (case scribe_envelope_add_change a clone (table_name c) (operation c) (primary_key c)
             (Some (before_hash c)) (Some (after_hash c)) of
        (e, clone1, a1) \<Rightarrow> clone_changes a1 clone1 cs)"

definition scribe_envelope_clone ::
  "ext \<Rightarrow> faults \<Rightarrow> scribe_envelope_t option \<Rightarrow> scribe_envelope_t option \<times> faults" where
  "scribe_envelope_clone L a env =
     (case env of
        None \<Rightarrow> (None, a)
      | Some e \<Rightarrow>
          (case scribe_envelope_new L a of
             (None, a1) \<Rightarrow> (None, a1)
           | (Some c0, a1) \<Rightarrow>
               (let c1 = c0\<lparr>commit_id := scribe_hash_copy (commit_id c0) (Some (commit_id e)),
                            parent_id := scribe_hash_copy (parent_id c0) (Some (parent_id e)),
                            tree_hash := scribe_hash_copy (tree_hash c0) (Some (tree_hash e))\<rparr> in
                case scribe_envelope_set_author a1 (Some c1) (author_id (author e)) (author_role (author e)) of
                  (r2, c2, a2) \<Rightarrow>
                (case (if author_email (author e) \<noteq> None
                       then scribe_envelope_set_author_email a2 c2 (author_email (author e))
                       else (SCRIBE_OK, c2, a2)) of
                  (r3, c3, a3) \<Rightarrow>
                (case scribe_envelope_set_process a3 c3 (proc_name (process e))
                        (proc_version (process e)) (proc_params (process e)) of
                  (r4, c4, a4) \<Rightarrow>
                (case (if proc_source (process e) \<noteq> None
                       then scribe_envelope_set_process_source a4 c4 (proc_source (process e))
                       else (SCRIBE_OK, c4, a4)) of
                  (r5, c5, a5) \<Rightarrow>
                (case (if message e \<noteq> None
                       then scribe_envelope_set_message a5 c5 (message e)
                       else (SCRIBE_OK, c5, a5)) of
                  (r6, c6, a6) \<Rightarrow>
                    clone_changes a6 (map_option (\<lambda>c. c\<lparr>timestamp := timestamp e\<rparr>) c6)
                      (changes e))))))))"

text \<open>The loop of \<open>scribe_envelope_finalize\<close> that adds the leaves; results are ignored.\<close>

fun finalize_leaves :: "faults \<Rightarrow> scribe_merkle_tree_t option \<Rightarrow> scribe_change_t list \<Rightarrow> scribe_merkle_tree_t option \<times> faults" where
  "finalize_leaves a tree [] = (tree, a)"
| "finalize_leaves a tree (c # cs) =
     (case (if \<not> scribe_hash_is_zero (Some (before_hash c))
            then scribe_merkle_add_hash a tree (Some ''before'') (Some (before_hash c))
            else (SCRIBE_OK, tree, a)) of
        (r1, t1, a1) \<Rightarrow>
     (case (if \<not> scribe_hash_is_zero (Some (after_hash c))
            then scribe_merkle_add_hash a1 t1 (Some ''after'') (Some (after_hash c))
            else (SCRIBE_OK, t1, a1)) of
        (r2, t2, a2) \<Rightarrow> finalize_leaves a2 t2 cs))"

definition scribe_envelope_finalize ::
  "ext \<Rightarrow> faults \<Rightarrow> scribe_envelope_t option \<Rightarrow> scribe_error_t \<times> scribe_envelope_t option \<times> faults" where
  "scribe_envelope_finalize L a env =
     (case env of
        None \<Rightarrow> (SCRIBE_ERR_INVALID_ARG, None, a)
      | Some e \<Rightarrow>
          (case (if scribe_hash_is_zero (Some (tree_hash e)) \<and> length (changes e) > 0 then
                   (case scribe_merkle_tree_new a of
                      (None, a1) \<Rightarrow> (SCRIBE_ERR_NOMEM, e, a1)
                    | (Some tree, a1) \<Rightarrow>
                        (case finalize_leaves a1 (Some tree) (changes e) of (t2, a2) \<Rightarrow>
                         (case scribe_merkle_build L a2 t2 of (r3, t3, a3) \<Rightarrow>
                            (case scribe_merkle_root t3 of
                               Some rt \<Rightarrow> (SCRIBE_OK, e\<lparr>tree_hash := scribe_hash_copy (tree_hash e) (Some rt)\<rparr>, a3)
                             | None \<Rightarrow> (SCRIBE_OK, e, a3)))))
                 else (SCRIBE_OK, e, a)) of
             (r, e1, a1) \<Rightarrow>
               if r \<noteq> SCRIBE_OK then (r, Some e1, a1)
               else
                 (case scribe_envelope_to_json L a1 (Some e1) of
                    (None, a2) \<Rightarrow> (SCRIBE_ERR_NOMEM, Some e1, a2)
                  | (Some json, a2) \<Rightarrow>
                      (let e2 = e1\<lparr>commit_id := SCRIBE_ZERO_HASH\<rparr> in
                       case scribe_envelope_to_json L a2 (Some e2) of
                         (Some json2, a3) \<Rightarrow>
                           (case scribe_hash_bytes L a3 (str_bytes json2) (commit_id e2) of
                              (r4, h, a4) \<Rightarrow> (SCRIBE_OK, Some (e2\<lparr>commit_id := h\<rparr>), a4))
                       | (None, a3) \<Rightarrow> (SCRIBE_OK, Some e2, a3)))))"

definition scribe_envelope_verify ::
  "ext \<Rightarrow> faults \<Rightarrow> scribe_envelope_t option \<Rightarrow> scribe_error_t \<times> faults" where
  "scribe_envelope_verify L a env =
     (case env of
        None \<Rightarrow> (SCRIBE_ERR_INVALID_ARG, a)
      | Some e \<Rightarrow>
          (case scribe_envelope_clone L a (Some e) of
             (None, a1) \<Rightarrow> (SCRIBE_ERR_NOMEM, a1)
           | (Some copy, a1) \<Rightarrow>
               (case scribe_envelope_to_json L a1 (Some (copy\<lparr>commit_id := SCRIBE_ZERO_HASH\<rparr>)) of
                  (None, a2) \<Rightarrow> (SCRIBE_ERR_NOMEM, a2)
                | (Some json, a2) \<Rightarrow>
                    (case scribe_hash_bytes L a2 (str_bytes json) (uninit_hash L) of
                       (r, computed, a3) \<Rightarrow>
                         if \<not> scribe_hash_equal (Some computed) (Some (commit_id e))
                         then (SCRIBE_ERR_HASH_MISMATCH, a3)
                         else (SCRIBE_OK, a3)))))"

subsection \<open>storage/database.c\<close>

text \<open>
  The SQLite database is modelled by the rows of the tables of \<open>SCHEMA_SQL\<close> that the commit
  engine reads and writes.  A column declared \<open>NOT NULL\<close> holds a \<open>string\<close>, a nullable column
  a \<open>string option\<close>; the columns \<open>created_at\<close> and \<open>updated_at\<close> and the tables \<open>objects\<close>
  and \<open>config\<close> are left out.  \<open>changes_seq\<close> is the \<open>AUTOINCREMENT\<close> counter of \<open>changes\<close>.
\<close>

record commit_row =
  c_hash :: string
  c_parent_hash :: "string option"
  c_tree_hash :: string
  c_author_id :: string
  c_author_role :: "string option"
  c_author_email :: "string option"
  c_process_name :: string
  c_process_version :: "string option"
  c_process_params :: "string option"
  c_process_source :: "string option"
  c_message :: "string option"
  c_timestamp :: "64 word"

record change_row =
  ch_id :: nat
  ch_commit_hash :: string
  ch_table_name :: string
  ch_operation :: string
  ch_primary_key :: string
  ch_before_hash :: "string option"
  ch_after_hash :: "string option"

record sqlite_tables =
  commits_tbl :: "commit_row list"
  changes_tbl :: "change_row list"
  refs_tbl :: "(string \<times> string) list"
  changes_seq :: nat

text \<open>
  An open handle: the current tables and, inside a transaction, the tables as they were
  at \<open>BEGIN\<close>.  A null \<open>scribe_db_t*\<close> or a null \<open>handle\<close> is \<open>None\<close>.
\<close>

record scribe_db_t =
  tables :: sqlite_tables
  txn :: "sqlite_tables option"

text \<open>\<open>INSERT INTO commits\<close>: \<open>None\<close> when a \<open>NOT NULL\<close> or the primary key constraint fails.\<close>

definition sql_insert_commit ::
  "sqlite_tables \<Rightarrow> string \<Rightarrow> string option \<Rightarrow> string \<Rightarrow> scribe_envelope_t \<Rightarrow> sqlite_tables option" where
  "sql_insert_commit T commit_hex parent_hex tree_hex env =
     (case (author_id (author env), proc_name (process env)) of
        (Some aid, Some pname) \<Rightarrow>
          if commit_hex \<in> set (map c_hash (commits_tbl T)) then None
          else Some (T\<lparr>commits_tbl := commits_tbl T @
                 [\<lparr>c_hash = commit_hex, c_parent_hash = parent_hex, c_tree_hash = tree_hex,
                   c_author_id = aid, c_author_role = author_role (author env),
                   c_author_email = author_email (author env),
                   c_process_name = pname, c_process_version = proc_version (process env),
                   c_process_params = proc_params (process env),
                   c_process_source = proc_source (process env),
                   c_message = message env, c_timestamp = timestamp env\<rparr>]\<rparr>)
      | _ \<Rightarrow> None)"

text \<open>
  \<open>INSERT INTO changes\<close>: \<open>None\<close> when a \<open>NOT NULL\<close> constraint, the \<open>CHECK\<close> on
  \<open>operation\<close> or the foreign key to \<open>commits(hash)\<close> fails.
\<close>

definition sql_insert_change ::
  "sqlite_tables \<Rightarrow> string \<Rightarrow> scribe_change_t \<Rightarrow> string option \<Rightarrow> string option \<Rightarrow> sqlite_tables option" where
  "sql_insert_change T commit_hex c before_hex after_hex =
     (case (table_name c, operation c, primary_key c) of
        (Some t, Some opr, Some pk) \<Rightarrow>
          if opr \<notin> {''INSERT'', ''UPDATE'', ''DELETE''} then None
          else if commit_hex \<notin> set (map c_hash (commits_tbl T)) then None
          else Some (T\<lparr>changes_tbl := changes_tbl T @
                 [\<lparr>ch_id = changes_seq T + 1, ch_commit_hash = commit_hex, ch_table_name = t,
                   ch_operation = opr, ch_primary_key = pk,
                   ch_before_hash = before_hex, ch_after_hash = after_hex\<rparr>],
                 changes_seq := changes_seq T + 1\<rparr>)
      | _ \<Rightarrow> None)"

definition scribe_db_init_schema :: "faults \<Rightarrow> scribe_db_t option \<Rightarrow> scribe_error_t \<times> scribe_db_t option \<times> faults" where
  "scribe_db_init_schema a db =
     (case db of
        None \<Rightarrow> (SCRIBE_ERR_INVALID_ARG, None, a)
      | Some d \<Rightarrow>
          (case attempt a of
             (False, a1) \<Rightarrow> (SCRIBE_ERR_DB, Some d, a1)
           | (True, a1) \<Rightarrow>
               (SCRIBE_OK,
                Some (if ''HEAD'' \<in> set (map fst (refs_tbl (tables d))) then d
                      else d\<lparr>tables := (tables d)\<lparr>refs_tbl := refs_tbl (tables d) @ [(''HEAD'', [])]\<rparr>\<rparr>),
                a1)))"

definition scribe_db_begin :: "scribe_db_t option \<Rightarrow> scribe_error_t \<times> scribe_db_t option" where
  "scribe_db_begin db =
     (case db of
        None \<Rightarrow> (SCRIBE_ERR_INVALID_ARG, None)
      | Some d \<Rightarrow>
          (case txn d of
             Some s \<Rightarrow> (SCRIBE_ERR_DB, Some d)
           | None \<Rightarrow> (SCRIBE_OK, Some (d\<lparr>txn := Some (tables d)\<rparr>))))"

definition scribe_db_commit :: "scribe_db_t option \<Rightarrow> scribe_error_t \<times> scribe_db_t option" where
  "scribe_db_commit db =
     (case db of
        None \<Rightarrow> (SCRIBE_ERR_INVALID_ARG, None)
      | Some d \<Rightarrow>
          (case txn d of
             None \<Rightarrow> (SCRIBE_ERR_DB, Some d)
           | Some s \<Rightarrow> (SCRIBE_OK, Some (d\<lparr>txn := None\<rparr>))))"

definition scribe_db_rollback :: "scribe_db_t option \<Rightarrow> scribe_error_t \<times> scribe_db_t option" where
  "scribe_db_rollback db =
     (case db of
        None \<Rightarrow> (SCRIBE_ERR_INVALID_ARG, None)
      | Some d \<Rightarrow>
          (case txn d of
             None \<Rightarrow> (SCRIBE_ERR_DB, Some d)
           | Some s \<Rightarrow> (SCRIBE_OK, Some (d\<lparr>tables := s, txn := None\<rparr>))))"

text \<open>
  The loop of \<open>scribe_db_store_commit\<close> over the changes: a statement that cannot be
  prepared is skipped, and the result of \<open>sqlite3_step\<close> is not looked at.
\<close>

fun store_changes :: "faults \<Rightarrow> sqlite_tables \<Rightarrow> string \<Rightarrow> scribe_change_t list \<Rightarrow> sqlite_tables \<times> faults" where
  "store_changes a T commit_hex [] = (T, a)"
| "store_changes a T commit_hex (c # cs) =
     (case attempt a of
        (False, a1) \<Rightarrow> store_changes a1 T commit_hex cs
      | (True, a1) \<Rightarrow>
          (case sql_insert_change T commit_hex c
                  (if scribe_hash_is_zero (Some (before_hash c)) then None
                   else Some (scribe_hash_to_hex (before_hash c)))
                  (if scribe_hash_is_zero (Some (after_hash c)) then None
                   else Some (scribe_hash_to_hex (after_hash c))) of
             None \<Rightarrow> store_changes a1 T commit_hex cs
           | Some T1 \<Rightarrow> store_changes a1 T1 commit_hex cs))"

definition scribe_db_store_commit ::
  "faults \<Rightarrow> scribe_db_t option \<Rightarrow> scribe_envelope_t option \<Rightarrow> scribe_error_t \<times> scribe_db_t option \<times> faults" where
  "scribe_db_store_commit a db env =
     (case (db, env) of
        (Some d, Some e) \<Rightarrow>
          (case attempt a of
             (False, a1) \<Rightarrow> (SCRIBE_ERR_DB, Some d, a1)
           | (True, a1) \<Rightarrow>
               (let commit_hex = scribe_hash_to_hex (commit_id e);
                    parent_hex = scribe_hash_to_hex (parent_id e);
                    tree_hex = scribe_hash_to_hex (tree_hash e) in
                case sql_insert_commit (tables d) commit_hex
                       (if scribe_hash_is_zero (Some (parent_id e)) then None else Some parent_hex)
                       tree_hex e of
                  None \<Rightarrow> (SCRIBE_ERR_DB, Some d, a1)
                | Some T1 \<Rightarrow>
                    (case store_changes a1 T1 commit_hex (changes e) of
                       (T2, a2) \<Rightarrow> (SCRIBE_OK, Some (d\<lparr>tables := T2\<rparr>), a2))))
      | _ \<Rightarrow> (SCRIBE_ERR_INVALID_ARG, db, a))"

definition scribe_db_commit_exists :: "faults \<Rightarrow> scribe_db_t option \<Rightarrow> scribe_hash_t option \<Rightarrow> bool \<times> faults" where
  "scribe_db_commit_exists a db hash =
     (case (db, hash) of
        (Some d, Some h) \<Rightarrow>
          (case attempt a of
             (False, a1) \<Rightarrow> (False, a1)
           | (True, a1) \<Rightarrow> (scribe_hash_to_hex h \<in> set (map c_hash (commits_tbl (tables d))), a1))
      | _ \<Rightarrow> (False, a))"

definition scribe_db_get_ref ::
  "faults \<Rightarrow> scribe_db_t option \<Rightarrow> string option \<Rightarrow> scribe_hash_t \<Rightarrow> scribe_error_t \<times> scribe_hash_t \<times> faults" where
  "scribe_db_get_ref a db name out_hash =
     (case (db, name) of
        (Some d, Some n) \<Rightarrow>
          (case attempt a of
             (False, a1) \<Rightarrow> (SCRIBE_ERR_DB, out_hash, a1)
           | (True, a1) \<Rightarrow>
               (case map_of (refs_tbl (tables d)) n of
                  None \<Rightarrow> (SCRIBE_ERR_NOT_FOUND, out_hash, a1)
                | Some hash_str \<Rightarrow>
                    if length hash_str = 64
                    then (SCRIBE_OK, snd (scribe_hash_from_hex (Some hash_str) out_hash), a1)
                    else (SCRIBE_OK, SCRIBE_ZERO_HASH, a1)))
      | _ \<Rightarrow> (SCRIBE_ERR_INVALID_ARG, out_hash, a))"

definition scribe_db_set_ref ::
  "faults \<Rightarrow> scribe_db_t option \<Rightarrow> string option \<Rightarrow> scribe_hash_t option \<Rightarrow> scribe_error_t \<times> scribe_db_t option \<times> faults" where
  "scribe_db_set_ref a db name hash =
     (case (db, name, hash) of
        (Some d, Some n, Some h) \<Rightarrow>
          (case attempt a of
             (False, a1) \<Rightarrow> (SCRIBE_ERR_DB, Some d, a1)
           | (True, a1) \<Rightarrow>
               (SCRIBE_OK,
                Some (d\<lparr>tables := (tables d)\<lparr>refs_tbl :=
                   filter (\<lambda>r. fst r \<noteq> n) (refs_tbl (tables d)) @ [(n, scribe_hash_to_hex h)]\<rparr>\<rparr>),
                a1))
      | _ \<Rightarrow> (SCRIBE_ERR_INVALID_ARG, db, a))"

text \<open>
  "Walk the parent chain": the \<open>while\<close> loop of \<open>scribe_db_get_history\<close>, with \<open>n\<close> the
  number of free slots \<open>limit - list->count\<close>.  The parent is parsed into \<open>current\<close> itself.
\<close>

fun history_loop :: "faults \<Rightarrow> sqlite_tables \<Rightarrow> nat \<Rightarrow> scribe_hash_t \<Rightarrow> scribe_hash_t list \<times> faults" where
  "history_loop a T 0 current = ([], a)"
| "history_loop a T (Suc n) current =
     (if scribe_hash_is_zero (Some current) then ([], a)
      else
        (case attempt a of
           (False, a1) \<Rightarrow> ([current], a1)
         | (True, a1) \<Rightarrow>
             (case history_loop a1 T n
                     (case find (\<lambda>r. c_hash r = scribe_hash_to_hex current) (commits_tbl T) of
                        Some row \<Rightarrow>
                          (case c_parent_hash row of
                             Some parent \<Rightarrow> snd (scribe_hash_from_hex (Some parent) current)
                           | None \<Rightarrow> SCRIBE_ZERO_HASH)
                      | None \<Rightarrow> SCRIBE_ZERO_HASH) of
                (hs, a2) \<Rightarrow> (current # hs, a2))))"

definition scribe_db_get_history ::
  "ext \<Rightarrow> faults \<Rightarrow> scribe_db_t option \<Rightarrow> scribe_hash_t option \<Rightarrow> nat \<Rightarrow> scribe_hash_t list option \<times> faults" where
  "scribe_db_get_history L a db from limit =
     (case db of
        None \<Rightarrow> (None, a)
      | Some d \<Rightarrow>
          (let lim = (if limit = 0 then 100 else limit) in
           case attempt a of
             (False, a1) \<Rightarrow> (None, a1)
           | (True, a1) \<Rightarrow>
               (case attempt a1 of
                  (False, a2) \<Rightarrow> (None, a2)
                | (True, a2) \<Rightarrow>
                    if from \<noteq> None \<and> \<not> scribe_hash_is_zero from
                    then (case history_loop a2 (tables d) lim (scribe_hash_copy (uninit_hash L) from) of
                            (hs, a3) \<Rightarrow> (Some hs, a3))
                    else
                      (case scribe_db_get_ref a2 (Some d) (Some ''HEAD'') (uninit_hash L) of
                         (err, current, a3) \<Rightarrow>
                           if err \<noteq> SCRIBE_OK \<or> scribe_hash_is_zero (Some current) then (None, a3)
                           else (case history_loop a3 (tables d) lim current of
                                   (hs, a4) \<Rightarrow> (Some hs, a4))))))"

subsection \<open>storage/repository.c\<close>

record scribe_repo_t =
  root_path :: string
  repo_db :: "scribe_db_t option"

definition scribe_repo_get_head ::
  "faults \<Rightarrow> scribe_repo_t option \<Rightarrow> scribe_hash_t \<Rightarrow> scribe_error_t \<times> scribe_hash_t \<times> faults" where
  "scribe_repo_get_head a repo out_hash =
     (case repo of
        None \<Rightarrow> (SCRIBE_ERR_INVALID_ARG, out_hash, a)
      | Some r \<Rightarrow>
          (case repo_db r of
             None \<Rightarrow> (SCRIBE_ERR_INVALID_ARG, out_hash, a)
           | Some d \<Rightarrow> scribe_db_get_ref a (Some d) (Some ''HEAD'') out_hash))"

definition scribe_repo_set_head ::
  "faults \<Rightarrow> scribe_repo_t option \<Rightarrow> scribe_hash_t option \<Rightarrow> scribe_error_t \<times> scribe_repo_t option \<times> faults" where
  "scribe_repo_set_head a repo hash =
     (case (repo, hash) of
        (Some r, Some h) \<Rightarrow>
          (case repo_db r of
             None \<Rightarrow> (SCRIBE_ERR_INVALID_ARG, repo, a)
           | Some d \<Rightarrow>
               (case scribe_db_set_ref a (Some d) (Some ''HEAD'') (Some h) of
                  (err, d1, a1) \<Rightarrow> (err, Some (r\<lparr>repo_db := d1\<rparr>), a1)))
      | _ \<Rightarrow> (SCRIBE_ERR_INVALID_ARG, repo, a))"

definition scribe_repo_store_commit ::
  "faults \<Rightarrow> scribe_repo_t option \<Rightarrow> scribe_envelope_t option \<Rightarrow> scribe_error_t \<times> scribe_repo_t option \<times> faults" where
  "scribe_repo_store_commit a repo env =
     (case (repo, env) of
        (Some r, Some e) \<Rightarrow>
          (case repo_db r of
             None \<Rightarrow> (SCRIBE_ERR_INVALID_ARG, repo, a)
           | Some d \<Rightarrow>
               (case scribe_db_store_commit a (Some d) (Some e) of
                  (err, d1, a1) \<Rightarrow> (err, Some (r\<lparr>repo_db := d1\<rparr>), a1)))
      | _ \<Rightarrow> (SCRIBE_ERR_INVALID_ARG, repo, a))"

definition scribe_repo_get_history ::
  "ext \<Rightarrow> faults \<Rightarrow> scribe_repo_t option \<Rightarrow> scribe_hash_t option \<Rightarrow> nat \<Rightarrow> scribe_hash_t list option \<times> faults" where
  "scribe_repo_get_history L a repo from limit =
     (case repo of
        None \<Rightarrow> (None, a)
      | Some r \<Rightarrow>
          (case repo_db r of
             None \<Rightarrow> (None, a)
           | Some d \<Rightarrow>
               (case scribe_db_get_history L a (Some d) from limit of
                  (None, a1) \<Rightarrow> (None, a1)
                | (Some hs, a1) \<Rightarrow>
                    (case attempt a1 of
                       (False, a2) \<Rightarrow> (None, a2)
                     | (True, a2) \<Rightarrow> (Some hs, a2)))))"

subsection \<open>commands/cmd\_commit.c\<close>

record commit_args =
  arg_message :: "string option"
  arg_author :: "string option"
  arg_role :: "string option"
  arg_process :: "string option"
  arg_version :: "string option"
  arg_table :: "string option"
  arg_operation :: "string option"
  arg_data :: "string option"

record scribe_config_t =
  cfg_author_id :: "string option"
  cfg_author_role :: "string option"

text \<open>
  \<open>cmd_commit\<close> from "Create envelope" to "Add change if specified": the envelope it has
  built when it calls \<open>scribe_envelope_finalize\<close> (\<open>None\<close> when \<open>scribe_envelope_new\<close> fails).
  \<open>repo\<close> is the repository that \<open>scribe_repo_open\<close> returned and \<open>config\<close> what
  \<open>scribe_config_load\<close> returned.
\<close>

definition cmd_commit_envelope ::
  "ext \<Rightarrow> faults \<Rightarrow> commit_args \<Rightarrow> scribe_repo_t \<Rightarrow> scribe_config_t option \<Rightarrow> scribe_envelope_t option \<times> faults" where
  "cmd_commit_envelope L a args repo config =
     (case scribe_envelope_new L a of
        (None, a1) \<Rightarrow> (None, a1)
      | (Some env, a1) \<Rightarrow>
          (let aid0 = (if arg_author args = None \<and> config \<noteq> None then cfg_author_id (the config)
                       else arg_author args);
               role0 = (if arg_role args = None \<and> config \<noteq> None then cfg_author_role (the config)
                        else arg_role args);
               aid = (case aid0 of None \<Rightarrow> ''user:anonymous'' | Some x \<Rightarrow> x);
               role = (case role0 of None \<Rightarrow> ''unknown'' | Some x \<Rightarrow> x);
               process_name = (case arg_process args of None \<Rightarrow> ''manual'' | Some x \<Rightarrow> x) in
           case scribe_envelope_set_author a1 (Some env) (Some aid) (Some role) of (r2, e2, a2) \<Rightarrow>
           (case scribe_envelope_set_process a2 e2 (Some process_name) (arg_version args) None of (r3, e3, a3) \<Rightarrow>
           (case (if arg_message args \<noteq> None then scribe_envelope_set_message a3 e3 (arg_message args)
                  else (SCRIBE_OK, e3, a3)) of (r4, e4, a4) \<Rightarrow>
           (case scribe_repo_get_head a4 (Some repo) (uninit_hash L) of (err, parent, a5) \<Rightarrow>
           (let e5 = (if err = SCRIBE_OK \<and> \<not> scribe_hash_is_zero (Some parent)
                      then snd (scribe_envelope_set_parent e4 (Some parent)) else e4) in
            if arg_table args \<noteq> None \<and> arg_operation args \<noteq> None then
              (case (case arg_data args of
                       Some d \<Rightarrow> scribe_hash_bytes L a5 (str_bytes d) SCRIBE_ZERO_HASH
                     | None \<Rightarrow> (SCRIBE_OK, SCRIBE_ZERO_HASH, a5)) of (r6, data_hash, a6) \<Rightarrow>
               (let op = the (arg_operation args);
                    before = (if op = ''INSERT'' then None
                              else if op = ''DELETE'' then Some data_hash else None);
                    after = (if op = ''INSERT'' then Some data_hash
                             else if op = ''DELETE'' then None else Some data_hash) in
                case scribe_envelope_add_change a6 e5 (arg_table args) (Some op)
                       (Some (case arg_data args of Some d \<Rightarrow> d | None \<Rightarrow> ''{}'')) before after of
                  (r7, e7, a7) \<Rightarrow> (e7, a7)))
            else (e5, a5)))))))"

text \<open>
  \<open>cmd_commit\<close> from "Finalize" to "Update HEAD": the exit code and the repository.
\<close>

definition cmd_commit_store ::
  "ext \<Rightarrow> faults \<Rightarrow> scribe_repo_t \<Rightarrow> scribe_envelope_t \<Rightarrow> int \<times> scribe_repo_t \<times> faults" where
  "cmd_commit_store L a repo env =
     (case scribe_envelope_finalize L a (Some env) of
        (err, env1, a1) \<Rightarrow>
          if err \<noteq> SCRIBE_OK then (1, repo, a1)
          else
            (case scribe_repo_store_commit a1 (Some repo) env1 of
               (err2, repo2, a2) \<Rightarrow>
                 if err2 \<noteq> SCRIBE_OK then (1, (case repo2 of Some r \<Rightarrow> r | None \<Rightarrow> repo), a2)
                 else
                   (case scribe_repo_set_head a2 repo2 (map_option commit_id env1) of
                      (err3, repo3, a3) \<Rightarrow>
                        if err3 \<noteq> SCRIBE_OK then (1, (case repo3 of Some r \<Rightarrow> r | None \<Rightarrow> repo), a3)
                        else (0, (case repo3 of Some r \<Rightarrow> r | None \<Rightarrow> repo), a3))))"

definition cmd_commit ::
  "ext \<Rightarrow> faults \<Rightarrow> commit_args \<Rightarrow> scribe_repo_t option \<Rightarrow> scribe_config_t option \<Rightarrow> int \<times> scribe_repo_t option \<times> faults" where
  "cmd_commit L a args repo config =
     (case repo of
        None \<Rightarrow> (1, None, a)
      | Some r \<Rightarrow>
          (case cmd_commit_envelope L a args r config of
             (None, a1) \<Rightarrow> (1, Some r, a1)
           | (Some env, a1) \<Rightarrow>
               (case cmd_commit_store L a1 r env of (code, r1, a2) \<Rightarrow> (code, Some r1, a2))))"

subsection \<open>Reference definitions, in the words of the specification\<close>

text \<open>\<open>hash_internal(left, right) := SHA256(0x01 \<parallel> left \<parallel> right)\<close>.\<close>

definition hash_internal :: "ext \<Rightarrow> scribe_hash_t \<Rightarrow> scribe_hash_t \<Rightarrow> scribe_hash_t" where
  "hash_internal L l r = EVP_sha256 L (0x01 # bytes l @ bytes r)"

text \<open>
  One level of the tree: neighbours are combined, and at an odd level the last node is
  paired with itself.
\<close>

fun pair_level :: "ext \<Rightarrow> scribe_hash_t list \<Rightarrow> scribe_hash_t list" where
  "pair_level L [] = []"
| "pair_level L [x] = [hash_internal L x x]"
| "pair_level L (x # y # rest) = hash_internal L x y # pair_level L rest"

text \<open>
  The root, bottom-up: the zero digest for no leaf, the leaf's digest for one leaf,
  otherwise the root of the next level.
\<close>

function merkle_root_spec :: "ext \<Rightarrow> scribe_hash_t list \<Rightarrow> scribe_hash_t" where
  "merkle_root_spec L hs =
     (if length hs = 0 then SCRIBE_ZERO_HASH
      else if length hs = 1 then hs ! 0
      else merkle_root_spec L (pair_level L hs))"
  by pat_completeness auto
termination
proof -
  have len: "length (pair_level L hs) = (length hs + 1) div 2" for L hs
    by (induction L hs rule: pair_level.induct) auto
  have less: "(n + 1) div 2 < n" if "n \<noteq> 0" "n \<noteq> 1" for n :: nat
    using that by arith
  show ?thesis
    by (relation "measure (\<lambda>(L, hs). length hs)")
       (auto simp: len simp del: length_0_conv intro!: less [simplified])
qed

declare merkle_root_spec.simps [simp del]

text \<open>
  The digests that finalization feeds to the tree: for each change in order, its
  \<open>before\<close> digest if non-zero, then its \<open>after\<close> digest if non-zero.
\<close>

definition change_digests :: "scribe_change_t list \<Rightarrow> scribe_hash_t list" where
  "change_digests cs =
     concat (map (\<lambda>c. (if before_hash c \<noteq> SCRIBE_ZERO_HASH then [before_hash c] else []) @
                       (if after_hash c \<noteq> SCRIBE_ZERO_HASH then [after_hash c] else [])) cs)"

text \<open>The \<open>tree_hash\<close> that finalization leaves when no acquisition fails.\<close>

definition finalized_tree_hash :: "ext \<Rightarrow> scribe_envelope_t \<Rightarrow> scribe_hash_t" where
  "finalized_tree_hash L e =
     (if tree_hash e = SCRIBE_ZERO_HASH \<and> changes e \<noteq> []
      then merkle_root_spec L (change_digests (changes e)) else tree_hash e)"

text \<open>
  The canonical serialization, in the words of the specification: the top-level keys
  \<open>commit_id\<close>, \<open>parent_id\<close>, \<open>tree_hash\<close>, each written as the lowercase hex of that digest
  and only when it is non-zero; \<open>author\<close> with \<open>id\<close>, \<open>role\<close>, \<open>email\<close>; \<open>process\<close> with \<open>name\<close>,
  \<open>version\<close>, \<open>params\<close>, \<open>source\<close>; \<open>timestamp\<close>; \<open>message\<close>; \<open>changes\<close>, each change
  writing \<open>table\<close>, \<open>operation\<close>, \<open>pk\<close>, then \<open>before_hash\<close> and \<open>after_hash\<close> as the hex of
  that digest, omitted when it is zero.
\<close>

definition hex_member :: "string \<Rightarrow> scribe_hash_t \<Rightarrow> (string \<times> yyjson_mut_val) list" where
  "hex_member key h = (if h = SCRIBE_ZERO_HASH then [] else [(key, JStr (scribe_hash_to_hex h))])"

definition canonical_change :: "scribe_change_t \<Rightarrow> yyjson_mut_val" where
  "canonical_change c =
     JObj (add_str ''table'' (table_name c) @ add_str ''operation'' (operation c) @
           add_str ''pk'' (primary_key c) @
           hex_member ''before_hash'' (before_hash c) @ hex_member ''after_hash'' (after_hash c))"

definition canonical_doc :: "scribe_envelope_t \<Rightarrow> yyjson_mut_val" where
  "canonical_doc env =
     JObj (hex_member ''commit_id'' (commit_id env) @
           hex_member ''parent_id'' (parent_id env) @
           hex_member ''tree_hash'' (tree_hash env) @
           [(''author'', JObj (add_str ''id'' (author_id (author env)) @
                               add_str ''role'' (author_role (author env)) @
                               add_str ''email'' (author_email (author env))))] @
           [(''process'', JObj (add_str ''name'' (proc_name (process env)) @
                                add_str ''version'' (proc_version (process env)) @
                                add_str ''params'' (proc_params (process env)) @
                                add_str ''source'' (proc_source (process env))))] @
           [(''timestamp'', JInt (sint (timestamp env)))] @
           add_str ''message'' (message env) @
           (if changes env = [] then [] else [(''changes'', JArr (map canonical_change (changes env)))]))"

text \<open>The canonical serialization of an envelope with its \<open>commit_id\<close> set to zero.\<close>

definition canonical_json :: "ext \<Rightarrow> scribe_envelope_t \<Rightarrow> string option" where
  "canonical_json L env = yyjson_mut_write L (canonical_doc (env\<lparr>commit_id := SCRIBE_ZERO_HASH\<rparr>))"

text \<open>The change invariants of the data model, in the words of the specification.\<close>

definition change_invariants :: "scribe_change_t \<Rightarrow> bool" where
  "change_invariants c \<longleftrightarrow>
     operation c \<in> {Some ''INSERT'', Some ''UPDATE'', Some ''DELETE''} \<and>
     (operation c = Some ''UPDATE'' \<longrightarrow>
        before_hash c \<noteq> SCRIBE_ZERO_HASH \<and> after_hash c \<noteq> SCRIBE_ZERO_HASH) \<and>
     (operation c = Some ''INSERT'' \<longrightarrow> before_hash c = SCRIBE_ZERO_HASH) \<and>
     (operation c = Some ''DELETE'' \<longrightarrow> after_hash c = SCRIBE_ZERO_HASH)"

text \<open>
  A chain of commits in a store, oldest first: every identifier is non-zero, the row that
  a lookup by its hex finds has the hex of the previous identifier as its parent (\<open>NULL\<close>
  for the first), and \<open>HEAD\<close> holds the hex of the last one.
\<close>

fun chain_rows :: "sqlite_tables \<Rightarrow> string option \<Rightarrow> scribe_hash_t list \<Rightarrow> bool" where
  "chain_rows T p [] = True"
| "chain_rows T p (c # cs) =
     (c \<noteq> SCRIBE_ZERO_HASH \<and>
      (case find (\<lambda>r. c_hash r = scribe_hash_to_hex c) (commits_tbl T) of
         None \<Rightarrow> False
       | Some row \<Rightarrow> c_parent_hash row = p) \<and>
      chain_rows T (Some (scribe_hash_to_hex c)) cs)"

definition is_chain :: "sqlite_tables \<Rightarrow> scribe_hash_t list \<Rightarrow> bool" where
  "is_chain T ids \<longleftrightarrow>
     ids \<noteq> [] \<and> chain_rows T None ids \<and>
     map_of (refs_tbl T) ''HEAD'' = Some (scribe_hash_to_hex (last ids))"

subsection \<open>Concrete inputs\<close>

text \<open>
  A stand-in for the external functions, used only where a theorem is instantiated at a
  concrete input: the digest keeps the last 32 bytes of its input (zero padded), the
  writer renders every document as \<open>{}\<close>, and the five arrays \<open>hex\<close> share one place of
  the frame.
\<close>

definition sample_ext :: ext where
  "sample_ext =
     \<lparr>EVP_sha256 = (\<lambda>bs. Hash (take 32 (rev bs @ replicate 32 0))),
      yyjson_mut_write = (\<lambda>v. Some ''{}''),
      time_now = 1700000000,
      uninit_hash = Hash (replicate 32 0),
      hex_slot = (\<lambda>b. 0)\<rparr>"

definition digest_A :: scribe_hash_t where "digest_A = Hash (replicate 32 1)"
definition digest_B :: scribe_hash_t where "digest_B = Hash (replicate 32 2)"
definition digest_C :: scribe_hash_t where "digest_C = Hash (replicate 32 3)"

definition sample_env :: scribe_envelope_t where
  "sample_env =
     \<lparr>commit_id = SCRIBE_ZERO_HASH, parent_id = SCRIBE_ZERO_HASH, tree_hash = SCRIBE_ZERO_HASH,
      author = \<lparr>author_id = Some ''user:alice'', author_role = Some ''data_engineer'',
                author_email = None\<rparr>,
      process = \<lparr>proc_name = Some ''etl.py'', proc_version = Some ''v1'',
                 proc_params = Some ''--dry-run'', proc_source = None\<rparr>,
      timestamp = 1700000000, message = Some ''seed'',
      changes = [\<lparr>table_name = Some ''orders'', operation = Some ''INSERT'',
                  primary_key = Some ''{id:1}'', before_hash = SCRIBE_ZERO_HASH,
                  after_hash = digest_A\<rparr>],
      change_capacity = 8\<rparr>"

text \<open>The envelope that \<open>scribe_envelope_new\<close> returns at time 0: every optional field absent.\<close>

definition blank_env :: scribe_envelope_t where
  "blank_env =
     \<lparr>commit_id = SCRIBE_ZERO_HASH, parent_id = SCRIBE_ZERO_HASH, tree_hash = SCRIBE_ZERO_HASH,
      author = \<lparr>author_id = None, author_role = None, author_email = None\<rparr>,
      process = \<lparr>proc_name = None, proc_version = None, proc_params = None, proc_source = None\<rparr>,
      timestamp = 0, message = None, changes = [], change_capacity = 8\<rparr>"

definition sample_tree :: scribe_merkle_tree_t where
  "sample_tree =
     \<lparr>leaves = [MerkleNode digest_A None None (Some ''before'') None True,
                MerkleNode digest_B None None (Some ''after'') None True,
                MerkleNode digest_C None None (Some ''after'') None True],
      leaf_capacity = 16, root = None, built = False\<rparr>"

text \<open>The tree with the two leaves \<open>digest_A\<close>, \<open>digest_B\<close>, before and after the build.\<close>

definition pair_tree :: scribe_merkle_tree_t where
  "pair_tree =
     \<lparr>leaves = [MerkleNode digest_A None None (Some ''before'') None True,
                MerkleNode digest_B None None (Some ''after'') None True],
      leaf_capacity = 16, root = None, built = False\<rparr>"

definition built_pair_tree :: scribe_merkle_tree_t where
  "built_pair_tree =
     pair_tree\<lparr>root := Some (MerkleNode (hash_internal sample_ext digest_A digest_B)
                              (Some (MerkleNode digest_A None None (Some ''before'') None True))
                              (Some (MerkleNode digest_B None None (Some ''after'') None True))
                              None None False),
               built := True\<rparr>"

text \<open>A repository right after \<open>scribe_repo_init\<close>: empty tables and an unborn \<open>HEAD\<close>.\<close>

definition sample_db :: scribe_db_t where
  "sample_db =
     \<lparr>tables = \<lparr>commits_tbl = [], changes_tbl = [], refs_tbl = [(''HEAD'', [])], changes_seq = 0\<rparr>,
      txn = None\<rparr>"

definition sample_repo :: scribe_repo_t where
  "sample_repo = \<lparr>root_path = ''/data/.scribe'', repo_db = Some sample_db\<rparr>"

text \<open>A store holding the chain of two commits \<open>digest_A\<close>, \<open>digest_B\<close>.\<close>

definition chain_db :: scribe_db_t where
  "chain_db =
     \<lparr>tables =
        \<lparr>commits_tbl =
           [\<lparr>c_hash = scribe_hash_to_hex digest_A, c_parent_hash = None,
             c_tree_hash = scribe_hash_to_hex SCRIBE_ZERO_HASH, c_author_id = ''user:alice'',
             c_author_role = None, c_author_email = None, c_process_name = ''manual'',
             c_process_version = None, c_process_params = None, c_process_source = None,
             c_message = Some ''seed'', c_timestamp = 1700000000\<rparr>,
            \<lparr>c_hash = scribe_hash_to_hex digest_B,
             c_parent_hash = Some (scribe_hash_to_hex digest_A),
             c_tree_hash = scribe_hash_to_hex SCRIBE_ZERO_HASH, c_author_id = ''user:alice'',
             c_author_role = None, c_author_email = None, c_process_name = ''manual'',
             c_process_version = None, c_process_params = None, c_process_source = None,
             c_message = Some ''fix'', c_timestamp = 1700000060\<rparr>],
         changes_tbl = [],
         refs_tbl = [(''HEAD'', scribe_hash_to_hex digest_B)],
         changes_seq = 0\<rparr>,
      txn = None\<rparr>"

text \<open>\<open>scribe commit -m fix -t orders -o UPDATE -d {}\<close>.\<close>

definition update_args :: commit_args where
  "update_args =
     \<lparr>arg_message = Some ''fix'', arg_author = None, arg_role = None, arg_process = None,
      arg_version = None, arg_table = Some ''orders'', arg_operation = Some ''UPDATE'',
      arg_data = Some ''{}''\<rparr>"

text \<open>
  A second stand-in, for looking at what is hashed: the writer renders a document as compact
  JSON (members in insertion order, no escapes), and the digest is a checksum to which every
  byte of the input contributes: the bytes are added, one after the other, onto 32 lanes
  taken in rotation.  The five arrays \<open>hex\<close> share one place, as in \<open>sample_ext\<close>.
\<close>

definition json_quote :: "string \<Rightarrow> string" where
  "json_quote s = CHR 0x22 # s @ [CHR 0x22]"

fun json_commas :: "string list \<Rightarrow> string" where
  "json_commas [] = []"
| "json_commas [s] = s"
| "json_commas (s # t # ss) = s @ '','' @ json_commas (t # ss)"

fun decimal :: "nat \<Rightarrow> string" where
  "decimal n =
     (if n < 10 then [''0123456789'' ! n]
      else decimal (n div 10) @ [''0123456789'' ! (n mod 10)])"

declare decimal.simps [simp del]

primrec compact_json :: "yyjson_mut_val \<Rightarrow> string" where
  "compact_json (JStr s) = json_quote s"
| "compact_json (JRef p) = ''null''"
| "compact_json (JInt i) = (if i < 0 then CHR ''-'' # decimal (nat (- i)) else decimal (nat i))"
| "compact_json (JObj ms) =
     ''{'' @ json_commas (map (\<lambda>(k, r). json_quote k @ '':'' @ r)
                            (map (map_prod id compact_json) ms)) @ ''}''"
| "compact_json (JArr vs) = ''['' @ json_commas (map compact_json vs) @ '']''"

definition lane_checksum :: "u8 list \<Rightarrow> scribe_hash_t" where
  "lane_checksum bs = Hash (fold (\<lambda>b st. tl st @ [hd st + b]) bs (replicate 32 0))"

definition compact_ext :: ext where
  "compact_ext =
     \<lparr>EVP_sha256 = lane_checksum,
      yyjson_mut_write = (\<lambda>v. Some (compact_json v)),
      time_now = 1700000000,
      uninit_hash = Hash (replicate 32 0),
      hex_slot = (\<lambda>b. 0)\<rparr>"

text \<open>
  An envelope with two inserted rows, not yet finalized, and the document of that envelope
  with the texts of its three digest members left open: \<open>tree_hash\<close>, the \<open>after_hash\<close> of
  the first change and the \<open>after_hash\<close> of the second.
\<close>

definition two_insert_env :: scribe_envelope_t where
  "two_insert_env =
     \<lparr>commit_id = SCRIBE_ZERO_HASH, parent_id = SCRIBE_ZERO_HASH, tree_hash = SCRIBE_ZERO_HASH,
      author = \<lparr>author_id = Some ''user:alice'', author_role = Some ''data_engineer'',
                author_email = None\<rparr>,
      process = \<lparr>proc_name = Some ''etl.py'', proc_version = Some ''v1'',
                 proc_params = Some ''--dry-run'', proc_source = None\<rparr>,
      timestamp = 1700000000, message = Some ''seed'',
      changes = [\<lparr>table_name = Some ''orders'', operation = Some ''INSERT'',
                  primary_key = Some ''{id:1}'', before_hash = SCRIBE_ZERO_HASH,
                  after_hash = digest_A\<rparr>,
                 \<lparr>table_name = Some ''orders'', operation = Some ''INSERT'',
                  primary_key = Some ''{id:2}'', before_hash = SCRIBE_ZERO_HASH,
                  after_hash = digest_B\<rparr>],
      change_capacity = 8\<rparr>"

definition two_insert_doc :: "string \<Rightarrow> string \<Rightarrow> string \<Rightarrow> yyjson_mut_val" where
  "two_insert_doc t a b =
     JObj [(''tree_hash'', JStr t),
           (''author'', JObj [(''id'', JStr ''user:alice''), (''role'', JStr ''data_engineer'')]),
           (''process'', JObj [(''name'', JStr ''etl.py''), (''version'', JStr ''v1''),
                               (''params'', JStr ''--dry-run'')]),
           (''timestamp'', JInt 1700000000),
           (''message'', JStr ''seed''),
           (''changes'',
            JArr [JObj [(''table'', JStr ''orders''), (''operation'', JStr ''INSERT''),
                        (''pk'', JStr ''{id:1}''), (''after_hash'', JStr a)],
                  JObj [(''table'', JStr ''orders''), (''operation'', JStr ''INSERT''),
                        (''pk'', JStr ''{id:2}''), (''after_hash'', JStr b)]])]"

text \<open>
  The envelope that finalization makes of it under \<open>compact_ext\<close>: the \<open>tree_hash\<close> is the
  root over the two digests, and the \<open>commit_id\<close> is the digest of the document in which all
  three digest members show the text of \<open>digest_B\<close>.
\<close>

definition two_insert_final :: scribe_envelope_t where
  "two_insert_final =
     two_insert_env
       \<lparr>tree_hash := hash_internal compact_ext digest_A digest_B,
        commit_id := EVP_sha256 compact_ext (str_bytes (compact_json
          (two_insert_doc (scribe_hash_to_hex digest_B) (scribe_hash_to_hex digest_B)
             (scribe_hash_to_hex digest_B))))\<rparr>"

section \<open>Properties\<close>

subsection \<open>Digests and their hexadecimal text\<close>

lemma bytes_Hash [simp]: "length bs = 32 \<Longrightarrow> bytes (Hash bs) = bs"
  by (simp add: Hash_inverse)

lemma length_bytes [simp]: "length (bytes h) = 32"
  using bytes [of h] by simp

lemma Hash_bytes [simp]: "Hash (bytes h) = h"
  by (rule bytes_inverse)

lemma nibble_cases: "n < 16 \<Longrightarrow> n \<in> {0, 1, 2, 3, 4, 5, 6, 7, 8, 9, 10, 11, 12, 13, 14, 15::nat}"
  by simp arith

lemma hex_char_digit:
  assumes "n < 16"
  shows "isxdigit (hex_chars ! n) \<and> hex_val (hex_chars ! n) = word_of_nat n"
  using nibble_cases [OF assms]
  by (auto simp: hex_chars_def isxdigit_def hex_val_def Let_def)

lemma byte_nibbles:
  "push_bit 4 (drop_bit 4 b AND 0x0F) OR (b AND 0x0F) = (b :: u8)"
proof -
  have m: "(0x0F :: u8) = mask 4" by (simp add: mask_eq_exp_minus_1)
  show ?thesis
    unfolding m by (rule bit_word_eqI) (auto simp: bit_simps)
qed

lemma nibble_lt: "unat ((w :: u8) AND 0x0F) < 16"
proof -
  have "w AND 0x0F \<le> 0x0F"
    by (rule word_and_le1)
  then have "unat (w AND 0x0F) \<le> unat (0x0F :: u8)"
    by (simp only: word_le_nat_alt)
  then show ?thesis by simp
qed

lemma from_hex_loop_to_hex:
  "length out = length bs \<Longrightarrow>
   from_hex_loop (concat (map (\<lambda>b. [hex_chars ! unat (drop_bit 4 b AND 0x0F), hex_chars ! unat (b AND 0x0F)]) bs)) out
     = (SCRIBE_OK, bs)"
proof (induction bs arbitrary: out)
  case Nil
  then show ?case by simp
next
  case (Cons b bs)
  then obtain o1 os where out: "out = o1 # os" "length os = length bs" by (cases out) auto
  have hi: "isxdigit (hex_chars ! unat (drop_bit 4 b AND 0x0F))"
       "hex_val (hex_chars ! unat (drop_bit 4 b AND 0x0F)) = drop_bit 4 b AND 0x0F"
    using hex_char_digit [OF nibble_lt [of "drop_bit 4 b"]] by simp_all
  have lo: "isxdigit (hex_chars ! unat (b AND 0x0F))"
       "hex_val (hex_chars ! unat (b AND 0x0F)) = b AND 0x0F"
    using hex_char_digit [OF nibble_lt [of b]] by simp_all
  have key: "push_bit 4 (hex_val (hex_chars ! unat (drop_bit 4 b AND 0x0F)))
               OR hex_val (hex_chars ! unat (b AND 0x0F)) = b"
    by (simp only: hi(2) lo(2) byte_nibbles)
  show ?case using Cons.IH [OF out(2)] out(1) hi(1) lo(1) key by simp
qed

lemma length_to_hex [simp]: "length (scribe_hash_to_hex h) = 64"
proof -
  have "length (concat (map (\<lambda>b. [f b, g b]) bs)) = 2 * length bs" for f g :: "u8 \<Rightarrow> char" and bs
    by (induction bs) auto
  then show ?thesis by (simp add: scribe_hash_to_hex_def)
qed

lemma from_hex_to_hex [simp]:
  "scribe_hash_from_hex (Some (scribe_hash_to_hex h)) out = (SCRIBE_OK, h)"
  using from_hex_loop_to_hex [of "bytes out" "bytes h"]
  by (simp add: scribe_hash_from_hex_def) (simp add: scribe_hash_to_hex_def)

lemma to_hex_inj: "scribe_hash_to_hex x = scribe_hash_to_hex y \<Longrightarrow> x = y"
  by (metis from_hex_to_hex snd_conv)

lemma to_hex_zero: "scribe_hash_to_hex SCRIBE_ZERO_HASH = replicate 64 (CHR ''0'')"
  by (simp add: scribe_hash_to_hex_def SCRIBE_ZERO_HASH_def hex_chars_def replicate_def numeral_nat)

subsection \<open>Runs in which no acquisition fails\<close>

lemma scribe_hash_copy_Some [simp]: "scribe_hash_copy d (Some s) = s"
  by (simp add: scribe_hash_copy_def)

lemma is_zero_iff [simp]: "scribe_hash_is_zero (Some h) \<longleftrightarrow> h = SCRIBE_ZERO_HASH"
  by (simp add: scribe_hash_is_zero_def bytes_inject)

lemma hash_equal_iff [simp]: "scribe_hash_equal (Some x) (Some y) \<longleftrightarrow> x = y"
  by (simp add: scribe_hash_equal_def bytes_inject)

lemma combine_ok [simp]:
  "scribe_hash_combine L [] l r out = (SCRIBE_OK, hash_internal L l r, [])"
  by (simp add: scribe_hash_combine_def hash_internal_def)

lemma hash_bytes_ok [simp]:
  "scribe_hash_bytes L [] d out = (SCRIBE_OK, EVP_sha256 L d, [])"
  by (simp add: scribe_hash_bytes_def)

lemma strdup_ok [simp]: "strdup [] s = (Some s, [])"
  by (simp add: strdup_def)

lemma safe_strdup_ok [simp]: "safe_strdup [] s = (s, [])"
  by (simp add: safe_strdup_def split: option.splits)

lemma build_level_ok:
  "\<exists>ps. build_level L [] lv = (Some ps, []) \<and> map node_hash ps = pair_level L (map node_hash lv)"
  by (induction lv rule: induct_list012) auto

lemma length_pair_level: "length (pair_level L hs) = (length hs + 1) div 2"
  by (induction L hs rule: pair_level.induct) auto

lemma build_levels_ok:
  "lv \<noteq> [] \<Longrightarrow> \<exists>fin. build_levels L [] lv = (Some fin, []) \<and> length fin = 1 \<and>
     node_hash (fin ! 0) = merkle_root_spec L (map node_hash lv)"
proof (induction "length lv" arbitrary: lv rule: less_induct)
  case less
  show ?case
  proof (cases "length lv > 1")
    case False
    with less.prems have "length lv = 1" by (cases lv) auto
    then show ?thesis
      by (subst build_levels.simps, subst merkle_root_spec.simps) (auto simp: length_Suc_conv)
  next
    case True
    obtain ps where ps: "build_level L [] lv = (Some ps, [])"
      "map node_hash ps = pair_level L (map node_hash lv)"
      using build_level_ok by blast
    have len: "length ps = (length lv + 1) div 2"
      using ps(2) length_pair_level [of L "map node_hash lv"] by (metis length_map)
    with True have "length ps < length lv" "ps \<noteq> []" by auto
    from less.hyps [OF this] obtain fin where
      "build_levels L [] ps = (Some fin, [])" "length fin = 1"
      "node_hash (fin ! 0) = merkle_root_spec L (map node_hash ps)" by blast
    with True ps show ?thesis
      by (subst build_levels.simps, subst merkle_root_spec.simps) auto
  qed
qed

lemma merkle_root_spec_Nil [simp]: "merkle_root_spec L [] = SCRIBE_ZERO_HASH"
  by (subst merkle_root_spec.simps) simp

lemma merkle_root_spec_single [simp]: "merkle_root_spec L [x] = x"
  by (subst merkle_root_spec.simps) simp

lemma build_level_odd:
  "even (length lv) \<Longrightarrow>
   fst (build_level L [] (lv @ [x])) =
     Some (the (fst (build_level L [] lv)) @
           [MerkleNode (hash_internal L (node_hash x) (node_hash x)) (Some x) None None None False])"
proof (induction lv rule: induct_list012)
  case (3 l r rest)
  obtain ps where "build_level L [] (rest @ [x]) = (Some ps, [])"
    using build_level_ok by blast
  moreover obtain qs where "build_level L [] rest = (Some qs, [])"
    using build_level_ok by blast
  ultimately show ?case using 3 by simp
qed simp_all

lemma merkle_build_ok:
  assumes "\<not> built t"
  shows "\<exists>t'. scribe_merkle_build L [] (Some t) = (SCRIBE_OK, Some t', []) \<and> built t' \<and>
      leaves t' = leaves t \<and>
      scribe_merkle_root (Some t') = Some (merkle_root_spec L (map node_hash (leaves t)))"
proof -
  consider "leaves t = []" | x where "leaves t = [x]" | "length (leaves t) > 1"
    by (cases "leaves t"; cases "tl (leaves t)"; simp; blast)
  then show ?thesis
  proof cases
    case 1
    with assms show ?thesis by (simp add: scribe_merkle_build_def calloc_node_def scribe_merkle_root_def)
  next
    case 2
    with assms show ?thesis by (simp add: scribe_merkle_build_def scribe_merkle_root_def)
  next
    case 3
    then have "leaves t \<noteq> []" by auto
    from build_levels_ok [OF this, of L] obtain fin where
      "build_levels L [] (leaves t) = (Some fin, [])"
      "node_hash (fin ! 0) = merkle_root_spec L (map node_hash (leaves t))" by blast
    with assms 3 show ?thesis by (auto simp: scribe_merkle_build_def scribe_merkle_root_def)
  qed
qed

lemma tree_new_ok [simp]:
  "scribe_merkle_tree_new [] = (Some \<lparr>leaves = [], leaf_capacity = 16, root = None, built = False\<rparr>, [])"
  by (simp add: scribe_merkle_tree_new_def)

lemma add_hash_ok:
  "\<not> built t \<Longrightarrow> scribe_merkle_add_hash [] (Some t) (Some f) (Some h) =
     (SCRIBE_OK, Some (t\<lparr>leaf_capacity := (if leaf_capacity t \<le> length (leaves t) then leaf_capacity t * 2 else leaf_capacity t),
         leaves := leaves t @ [MerkleNode h None None (Some f) None True]\<rparr>), [])"
  by (simp add: scribe_merkle_add_hash_def expand_leaves_def)

lemma finalize_leaves_ok:
  "\<not> built t \<Longrightarrow> \<exists>t'. finalize_leaves [] (Some t) cs = (Some t', []) \<and> \<not> built t' \<and>
     map node_hash (leaves t') = map node_hash (leaves t) @ change_digests cs"
proof (induction cs arbitrary: t)
  case Nil
  then show ?case by (simp add: change_digests_def)
next
  case (Cons c cs)
  obtain t1 where t1: "(if before_hash c \<noteq> SCRIBE_ZERO_HASH
            then scribe_merkle_add_hash [] (Some t) (Some ''before'') (Some (before_hash c))
            else (SCRIBE_OK, Some t, [])) = (SCRIBE_OK, Some t1, [])" "\<not> built t1"
     "map node_hash (leaves t1) = map node_hash (leaves t) @ (if before_hash c \<noteq> SCRIBE_ZERO_HASH then [before_hash c] else [])"
    using add_hash_ok [OF Cons.prems, of "''before''" "before_hash c"] Cons.prems by (cases "before_hash c = SCRIBE_ZERO_HASH") auto
  obtain t2 where t2: "(if after_hash c \<noteq> SCRIBE_ZERO_HASH
            then scribe_merkle_add_hash [] (Some t1) (Some ''after'') (Some (after_hash c))
            else (SCRIBE_OK, Some t1, [])) = (SCRIBE_OK, Some t2, [])" "\<not> built t2"
     "map node_hash (leaves t2) = map node_hash (leaves t1) @ (if after_hash c \<noteq> SCRIBE_ZERO_HASH then [after_hash c] else [])"
    using add_hash_ok [OF t1(2), of "''after''" "after_hash c"] t1(2) by (cases "after_hash c = SCRIBE_ZERO_HASH") auto
  from Cons.IH [OF t2(2)] obtain t' where
    "finalize_leaves [] (Some t2) cs = (Some t', [])" "\<not> built t'"
    "map node_hash (leaves t') = map node_hash (leaves t2) @ change_digests cs" by blast
  with t1 t2 show ?case by (simp add: change_digests_def)
qed

lemma to_json_ok [simp]:
  "scribe_envelope_to_json L [] (Some e) = (yyjson_mut_write L (envelope_doc L e), [])"
  by (simp add: scribe_envelope_to_json_def)

lemma finalize_ok:
  "scribe_envelope_finalize L [] (Some e) =
     (let e1 = e\<lparr>tree_hash := finalized_tree_hash L e\<rparr> in
      case yyjson_mut_write L (envelope_doc L e1) of
        None \<Rightarrow> (SCRIBE_ERR_NOMEM, Some e1, [])
      | Some json \<Rightarrow>
          (case yyjson_mut_write L (envelope_doc L (e1\<lparr>commit_id := SCRIBE_ZERO_HASH\<rparr>)) of
             Some json2 \<Rightarrow> (SCRIBE_OK, Some (e1\<lparr>commit_id := EVP_sha256 L (str_bytes json2)\<rparr>), [])
           | None \<Rightarrow> (SCRIBE_OK, Some (e1\<lparr>commit_id := SCRIBE_ZERO_HASH\<rparr>), [])))"
proof (cases "tree_hash e = SCRIBE_ZERO_HASH \<and> changes e \<noteq> []")
  case False
  then have "e\<lparr>tree_hash := finalized_tree_hash L e\<rparr> = e"
    by (auto simp: finalized_tree_hash_def)
  with False show ?thesis
    by (auto simp: scribe_envelope_finalize_def Let_def split: option.splits)
next
  case True
  obtain t' where t': "finalize_leaves [] (Some \<lparr>leaves = [], leaf_capacity = 16, root = None, built = False\<rparr>) (changes e) = (Some t', [])"
    "\<not> built t'" "map node_hash (leaves t') = change_digests (changes e)"
    using finalize_leaves_ok [of "\<lparr>leaves = [], leaf_capacity = 16, root = None, built = False\<rparr>" "changes e"] by auto
  from merkle_build_ok [OF t'(2), of L] obtain t3 where
    rt: "scribe_merkle_build L [] (Some t') = (SCRIBE_OK, Some t3, [])"
    "scribe_merkle_root (Some t3) = Some (merkle_root_spec L (map node_hash (leaves t')))" by blast
  from True t' rt show ?thesis
    by (auto simp: scribe_envelope_finalize_def Let_def finalized_tree_hash_def
        split: option.splits)
qed

lemma add_change_ok:
  "scribe_envelope_add_change [] (Some e) tbl op pk before after =
     (SCRIBE_OK,
      Some (e\<lparr>change_capacity :=
                (if change_capacity e \<le> length (changes e) then change_capacity e * 2
                 else change_capacity e),
              changes := changes e @
                [\<lparr>table_name = tbl, operation = op, primary_key = pk,
                  before_hash = (case before of None \<Rightarrow> SCRIBE_ZERO_HASH | Some b \<Rightarrow> b),
                  after_hash = (case after of None \<Rightarrow> SCRIBE_ZERO_HASH | Some b \<Rightarrow> b)\<rparr>]\<rparr>),
      [])"
  by (simp add: scribe_envelope_add_change_def scribe_hash_copy_def split: option.splits)

lemma change_eta [simp]:
  "\<lparr>table_name = table_name x, operation = operation x, primary_key = primary_key x,
     before_hash = before_hash x, after_hash = after_hash x\<rparr> = x"
  by (cases x) simp

lemma clone_changes_ok:
  "\<exists>cap. clone_changes [] (Some c) cs = (Some (c\<lparr>changes := changes c @ cs, change_capacity := cap\<rparr>), [])"
proof (induction cs arbitrary: c)
  case Nil
  show ?case by (rule exI [of _ "change_capacity c"]) simp
next
  case (Cons x xs)
  let ?c1 = "c\<lparr>change_capacity :=
                (if change_capacity c \<le> length (changes c) then change_capacity c * 2
                 else change_capacity c),
              changes := changes c @ [x]\<rparr>"
  from Cons [of ?c1] obtain cap where
    "clone_changes [] (Some ?c1) xs = (Some (?c1\<lparr>changes := changes ?c1 @ xs, change_capacity := cap\<rparr>), [])"
    by blast
  then show ?case by (auto simp: add_change_ok)
qed

lemma envelope_doc_capacity [simp]:
  "envelope_doc L (e\<lparr>change_capacity := n\<rparr>) = envelope_doc L e"
  by (simp add: envelope_doc_def envelope_build_def case_prod_unfold)

lemma clone_ok:
  "\<exists>cap. scribe_envelope_clone L [] (Some e) = (Some (e\<lparr>change_capacity := cap\<rparr>), [])"
proof -
  let ?c = "\<lparr>commit_id = commit_id e, parent_id = parent_id e, tree_hash = tree_hash e,
             author = author e, process = process e, timestamp = timestamp e,
             message = message e, changes = [], change_capacity = 8\<rparr>"
  obtain cap where "clone_changes [] (Some ?c) (changes e) =
      (Some (?c\<lparr>changes := changes ?c @ changes e, change_capacity := cap\<rparr>), [])"
    using clone_changes_ok by blast
  moreover have "?c\<lparr>changes := changes ?c @ changes e, change_capacity := cap\<rparr> = e\<lparr>change_capacity := cap\<rparr>"
    by (cases e) simp
  moreover have "scribe_envelope_clone L [] (Some e) = clone_changes [] (Some ?c) (changes e)"
    by (cases "author e"; cases "process e")
       (auto simp: scribe_envelope_clone_def scribe_envelope_new_def
          scribe_envelope_set_author_def scribe_envelope_set_author_email_def
          scribe_envelope_set_process_def scribe_envelope_set_process_source_def
          scribe_envelope_set_message_def Let_def)
  ultimately show ?thesis by (intro exI [of _ cap]) (simp only:)
qed

lemma verify_ok:
  "scribe_envelope_verify L [] (Some e) =
     ((case yyjson_mut_write L (envelope_doc L (e\<lparr>commit_id := SCRIBE_ZERO_HASH\<rparr>)) of
         None \<Rightarrow> SCRIBE_ERR_NOMEM
       | Some json \<Rightarrow>
           if EVP_sha256 L (str_bytes json) = commit_id e then SCRIBE_OK
           else SCRIBE_ERR_HASH_MISMATCH), [])"
proof -
  obtain cap where "scribe_envelope_clone L [] (Some e) = (Some (e\<lparr>change_capacity := cap\<rparr>), [])"
    using clone_ok by blast
  moreover have "envelope_doc L (e\<lparr>change_capacity := cap, commit_id := SCRIBE_ZERO_HASH\<rparr>)
      = envelope_doc L (e\<lparr>commit_id := SCRIBE_ZERO_HASH\<rparr>)"
    by (simp add: envelope_doc_def envelope_build_def case_prod_unfold)
  ultimately show ?thesis
    by (auto simp: scribe_envelope_verify_def split: option.splits)
qed

subsection \<open>Finalization and verification of envelopes\<close>

text \<open>
  Claim C10.  Finalization is idempotent: finalizing the envelope that a first finalization
  left gives the same envelope again, in particular the same \<open>tree_hash\<close> and the same
  \<open>commit_id\<close>.
\<close>

theorem finalize_idempotent:
  "fst (snd (scribe_envelope_finalize L [] (fst (snd (scribe_envelope_finalize L [] (Some e))))))
     = fst (snd (scribe_envelope_finalize L [] (Some e)))
   \<and> map_option tree_hash (fst (snd (scribe_envelope_finalize L []
        (fst (snd (scribe_envelope_finalize L [] (Some e)))))))
     = map_option tree_hash (fst (snd (scribe_envelope_finalize L [] (Some e))))
   \<and> map_option commit_id (fst (snd (scribe_envelope_finalize L []
        (fst (snd (scribe_envelope_finalize L [] (Some e)))))))
     = map_option commit_id (fst (snd (scribe_envelope_finalize L [] (Some e))))"
proof -
  have th: "finalized_tree_hash L (e\<lparr>tree_hash := finalized_tree_hash L e, commit_id := c\<rparr>)
      = finalized_tree_hash L e" for c
    by (simp add: finalized_tree_hash_def)
  have th2: "finalized_tree_hash L (e\<lparr>tree_hash := finalized_tree_hash L e\<rparr>)
      = finalized_tree_hash L e"
    by (simp add: finalized_tree_hash_def)
  have "fst (snd (scribe_envelope_finalize L [] (fst (snd (scribe_envelope_finalize L [] (Some e))))))
     = fst (snd (scribe_envelope_finalize L [] (Some e)))"
    by (simp add: finalize_ok Let_def th th2 split: option.splits)
  then show ?thesis by simp
qed

lemma sample_write [simp]: "yyjson_mut_write sample_ext d = Some ''{}''"
  by (simp add: sample_ext_def)

subsection \<open>The Merkle tree\<close>

text \<open>
  Claim C5.  Building a tree gives the root of the bottom-up reference definition: the
  zero digest for no leaf, the leaf's digest for one leaf, and at a level with an odd
  number of nodes the last node \<open>x\<close> gets a parent of its own with digest
  \<open>hash_internal(x, x)\<close>.
\<close>

theorem merkle_build_root_spec:
  assumes "\<not> built t"
  shows "fst (scribe_merkle_build L [] (Some t)) = SCRIBE_OK
     \<and> scribe_merkle_root (fst (snd (scribe_merkle_build L [] (Some t))))
         = Some (merkle_root_spec L (map node_hash (leaves t)))
     \<and> (leaves t = [] \<longrightarrow>
          scribe_merkle_root (fst (snd (scribe_merkle_build L [] (Some t)))) = Some SCRIBE_ZERO_HASH)
     \<and> (\<forall>x. leaves t = [x] \<longrightarrow>
          scribe_merkle_root (fst (snd (scribe_merkle_build L [] (Some t)))) = Some (node_hash x))
     \<and> (\<forall>lv x. even (length lv) \<longrightarrow>
          fst (build_level L [] (lv @ [x])) =
            Some (the (fst (build_level L [] lv)) @
                  [MerkleNode (hash_internal L (node_hash x) (node_hash x)) (Some x) None None None False]))"
proof -
  from merkle_build_ok [OF assms, of L] obtain t' where
    "scribe_merkle_build L [] (Some t) = (SCRIBE_OK, Some t', [])"
    "scribe_merkle_root (Some t') = Some (merkle_root_spec L (map node_hash (leaves t)))"
    by blast
  then show ?thesis by (auto simp: build_level_odd)
qed

theorem merkle_build_root_spec_witness:
  "\<not> built sample_tree
   \<and> fst (scribe_merkle_build sample_ext [] (Some sample_tree)) = SCRIBE_OK
   \<and> scribe_merkle_root (fst (snd (scribe_merkle_build sample_ext [] (Some sample_tree))))
       = Some (hash_internal sample_ext (hash_internal sample_ext digest_A digest_B)
                 (hash_internal sample_ext digest_C digest_C))"
proof -
  have b: "\<not> built sample_tree" by (simp add: sample_tree_def)
  have "merkle_root_spec sample_ext (map node_hash (leaves sample_tree))
      = hash_internal sample_ext (hash_internal sample_ext digest_A digest_B)
          (hash_internal sample_ext digest_C digest_C)"
    by (simp add: sample_tree_def merkle_root_spec.simps)
  with merkle_build_root_spec [OF b, of sample_ext] b show ?thesis by simp
qed

text \<open>
  Claim C4.  For an envelope with a zero \<open>tree_hash\<close> and at least one non-zero change
  digest, finalization sets \<open>tree_hash\<close> to the Merkle root over the non-zero digests in
  order (\<open>before\<close> then \<open>after\<close> of each change); the leaves of the tree it builds carry
  these digests themselves as their hashes, with no leaf prefix applied.
\<close>

theorem finalize_tree_hash:
  assumes "tree_hash e = SCRIBE_ZERO_HASH" and "change_digests (changes e) \<noteq> []"
  shows "map_option tree_hash (fst (snd (scribe_envelope_finalize L [] (Some e))))
           = Some (merkle_root_spec L (change_digests (changes e)))
     \<and> map node_hash (leaves (the (fst (finalize_leaves [] (fst (scribe_merkle_tree_new [])) (changes e)))))
           = change_digests (changes e)
     \<and> scribe_merkle_root (fst (snd (scribe_merkle_build L []
           (fst (finalize_leaves [] (fst (scribe_merkle_tree_new [])) (changes e))))))
           = Some (merkle_root_spec L (change_digests (changes e)))"
proof -
  from assms(2) have ne: "changes e \<noteq> []" by (auto simp: change_digests_def)
  obtain t' where t': "finalize_leaves [] (Some \<lparr>leaves = [], leaf_capacity = 16, root = None, built = False\<rparr>) (changes e) = (Some t', [])"
    "\<not> built t'" "map node_hash (leaves t') = change_digests (changes e)"
    using finalize_leaves_ok [of "\<lparr>leaves = [], leaf_capacity = 16, root = None, built = False\<rparr>" "changes e"] by auto
  from merkle_build_ok [OF t'(2), of L] obtain t3 where
    "scribe_merkle_build L [] (Some t') = (SCRIBE_OK, Some t3, [])"
    "scribe_merkle_root (Some t3) = Some (merkle_root_spec L (map node_hash (leaves t')))" by blast
  with t' assms(1) ne show ?thesis
    by (simp add: finalize_ok Let_def finalized_tree_hash_def split: option.splits)
qed

theorem finalize_tree_hash_witness:
  "tree_hash sample_env = SCRIBE_ZERO_HASH \<and> change_digests (changes sample_env) \<noteq> []
   \<and> map_option tree_hash (fst (snd (scribe_envelope_finalize sample_ext [] (Some sample_env))))
       = Some digest_A"
proof -
  have ne: "digest_A \<noteq> SCRIBE_ZERO_HASH"
    by (simp add: digest_A_def SCRIBE_ZERO_HASH_def Hash_inject)
  have h1: "tree_hash sample_env = SCRIBE_ZERO_HASH" by (simp add: sample_env_def)
  have cd: "change_digests (changes sample_env) = [digest_A]"
    using ne by (simp add: sample_env_def change_digests_def)
  then have h2: "change_digests (changes sample_env) \<noteq> []" by simp
  from finalize_tree_hash [OF h1 h2, of sample_ext] h1 h2 cd show ?thesis by simp
qed

lemma proof_verify_loop_zero:
  "i \<le> d \<Longrightarrow>
   proof_verify_loop L [] \<lparr>hashes = replicate d SCRIBE_ZERO_HASH, positions = replicate d 0, depth = d\<rparr> i c
     = (((\<lambda>c. hash_internal L c SCRIBE_ZERO_HASH) ^^ (d - i)) c, [])"
proof (induction "d - i" arbitrary: i c)
  case 0
  then show ?case by (subst proof_verify_loop.simps) simp
next
  case (Suc n)
  let ?p = "\<lparr>hashes = replicate d SCRIBE_ZERO_HASH, positions = replicate d 0, depth = d\<rparr>"
  let ?f = "\<lambda>c. hash_internal L c SCRIBE_ZERO_HASH"
  from Suc.hyps(2) Suc.prems have lt: "i < d" and n: "n = d - (i + 1)" and le: "i + 1 \<le> d"
    and eq: "d - i = Suc n" by auto
  have "proof_verify_loop L [] ?p i c = proof_verify_loop L [] ?p (i + 1) (?f c)"
    using lt by (subst proof_verify_loop.simps) simp
  also have "\<dots> = ((?f ^^ n) (?f c), [])"
    using Suc.hyps(1) [OF n le] n by simp
  also have "(?f ^^ n) (?f c) = (?f ^^ Suc n) c"
    by (simp only: funpow_Suc_right o_apply)
  finally show ?case using eq by simp
qed

text \<open>
  Claim C2, as the code behaves.  \<open>scribe_merkle_proof_create\<close> returns a proof whose
  sibling digests and position bits are all zero, whatever the tree and the index, so
  verification folds the leaf with zero digests: it accepts exactly when
  \<open>depth\<close> applications of \<open>c \<mapsto> hash_internal(c, 0)\<close> to the leaf give the root.
\<close>

theorem proof_create_zero_siblings:
  assumes "built t" and "i < length (leaves t)"
  shows "fst (scribe_merkle_proof_create [] (Some t) i)
           = Some \<lparr>hashes = replicate (tree_depth (length (leaves t)) 0) SCRIBE_ZERO_HASH,
                   positions = replicate (tree_depth (length (leaves t)) 0) 0,
                   depth = tree_depth (length (leaves t)) 0\<rparr>
     \<and> fst (scribe_merkle_proof_verify L [] (fst (scribe_merkle_proof_create [] (Some t) i))
              (Some leaf) (Some rt))
         = (((\<lambda>c. hash_internal L c SCRIBE_ZERO_HASH) ^^ tree_depth (length (leaves t)) 0) leaf = rt)"
  using assms
  by (simp add: scribe_merkle_proof_create_def scribe_merkle_proof_verify_def Let_def
        proof_verify_loop_zero)

subsection \<open>Error codes of finalization\<close>

lemma finalize_error_cases:
  "fst (scribe_envelope_finalize L a (Some e)) = SCRIBE_OK \<or>
   fst (scribe_envelope_finalize L a (Some e)) = SCRIBE_ERR_NOMEM"
  by (simp add: scribe_envelope_finalize_def Let_def split: prod.splits option.splits)

text \<open>
  Claim C9, amended.  \<open>scribe_envelope_finalize\<close> returns \<open>SCRIBE_ERR_INVALID_ARG\<close> exactly
  when the envelope pointer is null (absent fields of the envelope are not looked at), and
  no code other than \<open>SCRIBE_OK\<close>, \<open>SCRIBE_ERR_NOMEM\<close> and \<open>SCRIBE_ERR_INVALID_ARG\<close>.  It
  returns \<open>SCRIBE_ERR_NOMEM\<close> when the Merkle tree it needs cannot be allocated, and when the
  serialization it makes before clearing \<open>commit_id\<close> fails.
\<close>

theorem finalize_error_codes:
  "(fst (scribe_envelope_finalize L a env) = SCRIBE_ERR_INVALID_ARG \<longleftrightarrow> env = None)
   \<and> fst (scribe_envelope_finalize L a env) \<in> {SCRIBE_OK, SCRIBE_ERR_NOMEM, SCRIBE_ERR_INVALID_ARG}
   \<and> (\<forall>e. env = Some e \<and> tree_hash e = SCRIBE_ZERO_HASH \<and> changes e \<noteq> [] \<and>
          fst (scribe_merkle_tree_new a) = None
        \<longrightarrow> fst (scribe_envelope_finalize L a env) = SCRIBE_ERR_NOMEM)
   \<and> (\<forall>e. env = Some e \<and> \<not> (tree_hash e = SCRIBE_ZERO_HASH \<and> changes e \<noteq> []) \<and>
          fst (scribe_envelope_to_json L a env) = None
        \<longrightarrow> fst (scribe_envelope_finalize L a env) = SCRIBE_ERR_NOMEM)
   \<and> (\<forall>e. env = Some e \<and>
          yyjson_mut_write L (envelope_doc L (e\<lparr>tree_hash := finalized_tree_hash L e\<rparr>)) = None
        \<longrightarrow> fst (scribe_envelope_finalize L [] env) = SCRIBE_ERR_NOMEM)"
proof (cases env)
  case None
  then show ?thesis by (simp add: scribe_envelope_finalize_def)
next
  case (Some e)
  have 1: "fst (scribe_envelope_finalize L a (Some e)) \<noteq> SCRIBE_ERR_INVALID_ARG"
    using finalize_error_cases [of L a e] by auto
  have 2: "fst (scribe_envelope_finalize L a (Some e)) \<in> {SCRIBE_OK, SCRIBE_ERR_NOMEM, SCRIBE_ERR_INVALID_ARG}"
    using finalize_error_cases [of L a e] by auto
  have 3: "fst (scribe_envelope_finalize L a (Some e)) = SCRIBE_ERR_NOMEM"
    if "tree_hash e = SCRIBE_ZERO_HASH" "changes e \<noteq> []" "fst (scribe_merkle_tree_new a) = None"
  proof -
    from that(3) obtain a1 where "scribe_merkle_tree_new a = (None, a1)"
      by (cases "scribe_merkle_tree_new a") auto
    with that(1,2) show ?thesis by (simp add: scribe_envelope_finalize_def)
  qed
  have 4: "fst (scribe_envelope_finalize L a (Some e)) = SCRIBE_ERR_NOMEM"
    if "\<not> (tree_hash e = SCRIBE_ZERO_HASH \<and> changes e \<noteq> [])" "fst (scribe_envelope_to_json L a (Some e)) = None"
  proof -
    from that(2) obtain a1 where "scribe_envelope_to_json L a (Some e) = (None, a1)"
      by (cases "scribe_envelope_to_json L a (Some e)") auto
    with that(1) show ?thesis by (auto simp: scribe_envelope_finalize_def)
  qed
  have 5: "fst (scribe_envelope_finalize L [] (Some e)) = SCRIBE_ERR_NOMEM"
    if "yyjson_mut_write L (envelope_doc L (e\<lparr>tree_hash := finalized_tree_hash L e\<rparr>)) = None"
    using that by (simp add: finalize_ok Let_def)
  from Some 1 2 3 4 5 show ?thesis by auto
qed

theorem finalize_error_codes_witness:
  "tree_hash sample_env = SCRIBE_ZERO_HASH \<and> changes sample_env \<noteq> []
   \<and> fst (scribe_merkle_tree_new [False]) = None
   \<and> fst (scribe_envelope_finalize sample_ext [False] (Some sample_env)) = SCRIBE_ERR_NOMEM
   \<and> fst (scribe_envelope_finalize sample_ext [False] None) = SCRIBE_ERR_INVALID_ARG"
proof -
  have h: "tree_hash sample_env = SCRIBE_ZERO_HASH" "changes sample_env \<noteq> []"
    "fst (scribe_merkle_tree_new [False]) = None"
    by (simp_all add: sample_env_def scribe_merkle_tree_new_def)
  from finalize_error_codes [of sample_ext "[False]" "Some sample_env"]
       finalize_error_codes [of sample_ext "[False]" None] h
  show ?thesis by simp
qed

text \<open>
  Claim C9 as stated fails: an envelope whose author, process and message are all absent is
  finalized with \<open>SCRIBE_OK\<close>.
\<close>

theorem finalize_null_fields_counterexample:
  "author_id (author blank_env) = None \<and> author_role (author blank_env) = None
   \<and> proc_name (process blank_env) = None \<and> message blank_env = None
   \<and> fst (scribe_envelope_finalize sample_ext [] (Some blank_env)) = SCRIBE_OK"
  by (simp add: finalize_ok Let_def) (simp add: blank_env_def)

subsection \<open>Changes held by an envelope\<close>

text \<open>
  Claim C8, amended.  \<open>scribe_envelope_add_change\<close> checks nothing: when no allocation
  fails it returns \<open>SCRIBE_OK\<close> and appends the change exactly as given, the operation
  string verbatim and each digest as passed (zero for a null pointer).  So the changes of
  the envelope satisfy the change invariants afterwards exactly when they did before and
  the arguments satisfy them.
\<close>

theorem add_change_verbatim:
  "scribe_envelope_add_change [] (Some e) tbl op pk before after =
     (SCRIBE_OK,
      Some (e\<lparr>change_capacity :=
                (if change_capacity e \<le> length (changes e) then change_capacity e * 2
                 else change_capacity e),
              changes := changes e @
                [\<lparr>table_name = tbl, operation = op, primary_key = pk,
                  before_hash = (case before of None \<Rightarrow> SCRIBE_ZERO_HASH | Some b \<Rightarrow> b),
                  after_hash = (case after of None \<Rightarrow> SCRIBE_ZERO_HASH | Some b \<Rightarrow> b)\<rparr>]\<rparr>),
      [])
   \<and> (list_all change_invariants
         (changes (the (fst (snd (scribe_envelope_add_change [] (Some e) tbl op pk before after)))))
       \<longleftrightarrow> list_all change_invariants (changes e) \<and>
           change_invariants
             \<lparr>table_name = tbl, operation = op, primary_key = pk,
              before_hash = (case before of None \<Rightarrow> SCRIBE_ZERO_HASH | Some b \<Rightarrow> b),
              after_hash = (case after of None \<Rightarrow> SCRIBE_ZERO_HASH | Some b \<Rightarrow> b)\<rparr>)"
  by (simp add: add_change_ok)

lemma sample_head [simp]:
  "scribe_repo_get_head [] (Some sample_repo) out = (SCRIBE_OK, SCRIBE_ZERO_HASH, [])"
  by (simp add: scribe_repo_get_head_def sample_repo_def sample_db_def scribe_db_get_ref_def)

text \<open>
  Claim C8 as stated fails: \<open>scribe commit -t orders -o UPDATE -d {}\<close> builds an envelope
  whose change has operation \<open>UPDATE\<close> and a zero \<open>before\<close> digest.
\<close>

theorem cmd_commit_update_counterexample:
  "\<not> list_all change_invariants
       (changes (the (fst (cmd_commit_envelope sample_ext [] update_args sample_repo None))))"
  by (simp add: cmd_commit_envelope_def scribe_envelope_new_def scribe_envelope_set_author_def
        scribe_envelope_set_process_def scribe_envelope_set_message_def update_args_def
        Let_def add_change_ok change_invariants_def)

theorem add_change_verbatim_witness:
  "list_all change_invariants (changes blank_env)
   \<and> list_all change_invariants
       (changes (the (fst (snd (scribe_envelope_add_change [] (Some blank_env)
          (Some ''orders'') (Some ''INSERT'') (Some ''{}'') None (Some digest_A))))))"
  using add_change_verbatim [of blank_env "Some ''orders''" "Some ''INSERT''" "Some ''{}''" None "Some digest_A"]
  by (simp add: blank_env_def change_invariants_def)

subsection \<open>Storing commits\<close>

lemma store_changes_keeps:
  "store_changes a T h cs = (T', a') \<Longrightarrow>
     commits_tbl T' = commits_tbl T \<and> refs_tbl T' = refs_tbl T"
proof (induction cs arbitrary: a T)
  case Nil
  then show ?case by simp
next
  case (Cons c cs)
  then show ?case
    by (auto simp: sql_insert_change_def split: prod.splits bool.splits option.splits if_splits)
qed

lemma db_store_commit_result:
  "scribe_db_store_commit a (Some d) (Some e) = (err, d1, a1) \<Longrightarrow>
     \<exists>d'. d1 = Some d' \<and> refs_tbl (tables d') = refs_tbl (tables d) \<and> txn d' = txn d \<and>
          (err \<noteq> SCRIBE_OK \<longrightarrow> d' = d) \<and>
          (err = SCRIBE_OK \<longrightarrow>
             scribe_hash_to_hex (commit_id e) \<notin> set (map c_hash (commits_tbl (tables d))) \<and>
             map c_hash (commits_tbl (tables d')) =
               map c_hash (commits_tbl (tables d)) @ [scribe_hash_to_hex (commit_id e)])"
  by (auto simp: scribe_db_store_commit_def sql_insert_commit_def Let_def
        split: prod.splits bool.splits option.splits if_splits
        dest!: store_changes_keeps)

lemma db_store_commit_duplicate:
  assumes "scribe_hash_to_hex (commit_id e) \<in> set (map c_hash (commits_tbl (tables d)))"
  shows "fst (scribe_db_store_commit a (Some d) (Some e)) = SCRIBE_ERR_DB \<and>
         fst (snd (scribe_db_store_commit a (Some d) (Some e))) = Some d"
  using assms
  by (auto simp: scribe_db_store_commit_def sql_insert_commit_def Let_def
        split: prod.splits bool.splits option.splits)


lemma map_of_replace:
  "map_of (filter (\<lambda>r. fst r \<noteq> n) xs @ [(n, v)]) n = Some v"
  by (induction xs) auto

lemma db_set_ref_result:
  "scribe_db_set_ref a (Some d) (Some n) (Some h) = (err, d1, a1) \<Longrightarrow>
     \<exists>d'. d1 = Some d' \<and> commits_tbl (tables d') = commits_tbl (tables d) \<and>
          (err \<noteq> SCRIBE_OK \<longrightarrow> d' = d) \<and>
          (err = SCRIBE_OK \<longrightarrow> map_of (refs_tbl (tables d')) n = Some (scribe_hash_to_hex h))"
  by (auto simp: scribe_db_set_ref_def map_of_replace simp del: map_of_append
        split: prod.splits bool.splits)

lemma finalize_Some:
  "scribe_envelope_finalize L a (Some e) = (err, env1, a1) \<Longrightarrow> \<exists>e1. env1 = Some e1"
  by (auto simp: scribe_envelope_finalize_def Let_def split: prod.splits option.splits if_splits)

lemma repo_update_same [simp]: "repo_db r = Some d \<Longrightarrow> r\<lparr>repo_db := Some d\<rparr> = r"
  by (cases r) simp

lemma cmd_commit_store_result:
  assumes "repo_db r = Some d"
  shows "\<exists>e1 d'. fst (snd (scribe_envelope_finalize L a (Some e0))) = Some e1 \<and>
        fst (snd (cmd_commit_store L a r e0)) = r\<lparr>repo_db := Some d'\<rparr> \<and>
        (fst (cmd_commit_store L a r e0) = 0 \<longrightarrow>
           map_of (refs_tbl (tables d')) ''HEAD'' = Some (scribe_hash_to_hex (commit_id e1)) \<and>
           scribe_hash_to_hex (commit_id e1) \<in> set (map c_hash (commits_tbl (tables d')))) \<and>
        (fst (cmd_commit_store L a r e0) \<noteq> 0 \<longrightarrow> refs_tbl (tables d') = refs_tbl (tables d))"
proof -
  obtain err env1 a1 where f: "scribe_envelope_finalize L a (Some e0) = (err, env1, a1)"
    by (cases "scribe_envelope_finalize L a (Some e0)") auto
  then obtain e1 where e1: "env1 = Some e1" using finalize_Some by blast
  obtain err2 d1 a2 where st: "scribe_db_store_commit a1 (Some d) (Some e1) = (err2, d1, a2)"
    by (cases "scribe_db_store_commit a1 (Some d) (Some e1)") auto
  from db_store_commit_result [OF st] obtain d2 where d2: "d1 = Some d2"
    "refs_tbl (tables d2) = refs_tbl (tables d)" "err2 \<noteq> SCRIBE_OK \<longrightarrow> d2 = d"
    "err2 = SCRIBE_OK \<longrightarrow> map c_hash (commits_tbl (tables d2)) =
        map c_hash (commits_tbl (tables d)) @ [scribe_hash_to_hex (commit_id e1)]"
    by blast
  obtain err3 d3 a3 where sr: "scribe_db_set_ref a2 (Some d2) (Some ''HEAD'') (Some (commit_id e1)) = (err3, d3, a3)"
    by (cases "scribe_db_set_ref a2 (Some d2) (Some ''HEAD'') (Some (commit_id e1))") auto
  from db_set_ref_result [OF sr] obtain d4 where d4: "d3 = Some d4"
    "commits_tbl (tables d4) = commits_tbl (tables d2)" "err3 \<noteq> SCRIBE_OK \<longrightarrow> d4 = d2"
    "err3 = SCRIBE_OK \<longrightarrow> map_of (refs_tbl (tables d4)) ''HEAD'' = Some (scribe_hash_to_hex (commit_id e1))"
    by blast
  show ?thesis
  proof (cases "err = SCRIBE_OK")
    case False
    with f e1 assms show ?thesis
      by (intro exI [of _ e1] exI [of _ d]) (simp add: cmd_commit_store_def)
  next
    case ok: True
    show ?thesis
    proof (cases "err2 = SCRIBE_OK")
      case False
      with ok f e1 st d2 assms show ?thesis
        by (intro exI [of _ e1] exI [of _ d])
           (simp add: cmd_commit_store_def scribe_repo_store_commit_def)
    next
      case ok2: True
      show ?thesis
      proof (cases "err3 = SCRIBE_OK")
        case False
        with ok ok2 f e1 st d2 sr d4 assms show ?thesis
          by (intro exI [of _ e1] exI [of _ d2])
             (simp add: cmd_commit_store_def scribe_repo_store_commit_def scribe_repo_set_head_def)
      next
        case True
        with ok ok2 f e1 st d2 sr d4 assms show ?thesis
          by (intro exI [of _ e1] exI [of _ d4])
             (simp add: cmd_commit_store_def scribe_repo_store_commit_def scribe_repo_set_head_def)
      qed
    qed
  qed
qed

text \<open>
  Claim C3, amended.  \<open>scribe_repo_store_commit\<close> only checks its pointers and hands the
  envelope to \<open>scribe_db_store_commit\<close>.  That call leaves the \<open>refs\<close> table (so \<open>HEAD\<close>)
  and the transaction state as they were, leaves the whole store unchanged when it fails,
  and on success adds a row keyed by the \<open>commit_id\<close> the envelope came with: nothing is
  finalized.  Finalizing and advancing \<open>HEAD\<close> are the separate steps of \<open>cmd_commit\<close>:
  when it exits with 0, \<open>HEAD\<close> holds the identifier of the finalized envelope and a commit
  row with that identifier exists; when it exits with 1, \<open>HEAD\<close> is unchanged.
\<close>

theorem repo_store_commit_delegates:
  assumes "repo_db r = Some d"
  shows "scribe_repo_store_commit a (Some r) (Some e) =
           (case scribe_db_store_commit a (Some d) (Some e) of
              (err, d1, a1) \<Rightarrow> (err, Some (r\<lparr>repo_db := d1\<rparr>), a1))
     \<and> (\<exists>d'. fst (snd (scribe_db_store_commit a (Some d) (Some e))) = Some d' \<and>
           refs_tbl (tables d') = refs_tbl (tables d) \<and> txn d' = txn d \<and>
           (fst (scribe_db_store_commit a (Some d) (Some e)) \<noteq> SCRIBE_OK \<longrightarrow> d' = d) \<and>
           (fst (scribe_db_store_commit a (Some d) (Some e)) = SCRIBE_OK \<longrightarrow>
              map c_hash (commits_tbl (tables d')) =
                map c_hash (commits_tbl (tables d)) @ [scribe_hash_to_hex (commit_id e)]))
     \<and> (\<exists>e1 d'. fst (snd (scribe_envelope_finalize L a (Some e))) = Some e1 \<and>
           fst (snd (cmd_commit_store L a r e)) = r\<lparr>repo_db := Some d'\<rparr> \<and>
           (fst (cmd_commit_store L a r e) = 0 \<longrightarrow>
              map_of (refs_tbl (tables d')) ''HEAD'' = Some (scribe_hash_to_hex (commit_id e1)) \<and>
              scribe_hash_to_hex (commit_id e1) \<in> set (map c_hash (commits_tbl (tables d')))) \<and>
           (fst (cmd_commit_store L a r e) \<noteq> 0 \<longrightarrow> refs_tbl (tables d') = refs_tbl (tables d)))"
proof -
  obtain err d1 a1 where st: "scribe_db_store_commit a (Some d) (Some e) = (err, d1, a1)"
    by (cases "scribe_db_store_commit a (Some d) (Some e)") auto
  from db_store_commit_result [OF st] st assms cmd_commit_store_result [OF assms, of L a e]
  show ?thesis
    by (simp add: scribe_repo_store_commit_def) blast
qed


lemma digest_A_nonzero [simp]: "digest_A \<noteq> SCRIBE_ZERO_HASH"
  by (simp add: digest_A_def SCRIBE_ZERO_HASH_def Hash_inject)

lemma sample_store:
  "scribe_db_store_commit [] (Some sample_db) (Some sample_env) =
     (SCRIBE_OK,
      Some (sample_db\<lparr>tables := (tables sample_db)
         \<lparr>commits_tbl :=
            [\<lparr>c_hash = replicate 64 (CHR ''0''), c_parent_hash = None,
              c_tree_hash = replicate 64 (CHR ''0''), c_author_id = ''user:alice'',
              c_author_role = Some ''data_engineer'', c_author_email = None,
              c_process_name = ''etl.py'', c_process_version = Some ''v1'',
              c_process_params = Some ''--dry-run'', c_process_source = None,
              c_message = Some ''seed'', c_timestamp = 1700000000\<rparr>],
          changes_tbl :=
            [\<lparr>ch_id = 1, ch_commit_hash = replicate 64 (CHR ''0''), ch_table_name = ''orders'',
              ch_operation = ''INSERT'', ch_primary_key = ''{id:1}'', ch_before_hash = None,
              ch_after_hash = Some (scribe_hash_to_hex digest_A)\<rparr>],
          changes_seq := 1\<rparr>\<rparr>),
      [])"
  by (simp add: scribe_db_store_commit_def sql_insert_commit_def sql_insert_change_def Let_def
        sample_db_def sample_env_def to_hex_zero)

text \<open>
  Claim C3 as stated fails: storing a fresh, unfinalized envelope through the facade
  succeeds, the row is stored under the hex of the zero digest, and \<open>HEAD\<close> still resolves
  to the zero digest afterwards.
\<close>

theorem repo_store_commit_counterexample:
  "commit_id sample_env = SCRIBE_ZERO_HASH
   \<and> fst (scribe_repo_store_commit [] (Some sample_repo) (Some sample_env)) = SCRIBE_OK
   \<and> map c_hash (commits_tbl (tables (the (repo_db (the (fst (snd
         (scribe_repo_store_commit [] (Some sample_repo) (Some sample_env))))))))) =
       [replicate 64 (CHR ''0'')]
   \<and> scribe_repo_get_head []
         (fst (snd (scribe_repo_store_commit [] (Some sample_repo) (Some sample_env)))) digest_A
       = (SCRIBE_OK, SCRIBE_ZERO_HASH, [])"
  by (simp add: scribe_repo_store_commit_def sample_repo_def sample_store
        scribe_repo_get_head_def scribe_db_get_ref_def)
     (simp add: sample_db_def sample_env_def)

theorem repo_store_commit_delegates_witness:
  "repo_db sample_repo = Some sample_db
   \<and> scribe_repo_store_commit [] (Some sample_repo) (Some sample_env) =
       (case scribe_db_store_commit [] (Some sample_db) (Some sample_env) of
          (err, d1, a1) \<Rightarrow> (err, Some (sample_repo\<lparr>repo_db := d1\<rparr>), a1))"
proof -
  have h: "repo_db sample_repo = Some sample_db" by (simp add: sample_repo_def)
  from repo_store_commit_delegates [OF h, of "[]" sample_env sample_ext] h show ?thesis by simp
qed

text \<open>
  Claim C7.  Storing a commit whose \<open>commit_id\<close> is already in the store returns
  \<open>SCRIBE_ERR_DB\<close> and leaves the store unchanged; a store that returned \<open>SCRIBE_OK\<close> was the
  first insertion of that identifier, and storing the same envelope again then fails and
  changes nothing; and \<open>cmd_commit\<close>, when the identifier of its finalized envelope is
  already stored, exits with 1 and leaves the repository, \<open>HEAD\<close> included, as it was.
\<close>

theorem store_commit_duplicate:
  "(scribe_hash_to_hex (commit_id e) \<in> set (map c_hash (commits_tbl (tables d))) \<longrightarrow>
      fst (scribe_db_store_commit a (Some d) (Some e)) = SCRIBE_ERR_DB \<and>
      fst (snd (scribe_db_store_commit a (Some d) (Some e))) = Some d)
   \<and> (fst (scribe_db_store_commit a (Some d) (Some e)) = SCRIBE_OK \<longrightarrow>
        scribe_hash_to_hex (commit_id e) \<notin> set (map c_hash (commits_tbl (tables d))) \<and>
        fst (scribe_db_store_commit a2 (fst (snd (scribe_db_store_commit a (Some d) (Some e)))) (Some e))
          = SCRIBE_ERR_DB \<and>
        fst (snd (scribe_db_store_commit a2 (fst (snd (scribe_db_store_commit a (Some d) (Some e)))) (Some e)))
          = fst (snd (scribe_db_store_commit a (Some d) (Some e))))
   \<and> (repo_db r = Some d \<and> scribe_envelope_finalize L a (Some e0) = (SCRIBE_OK, Some e, a1) \<and>
        scribe_hash_to_hex (commit_id e) \<in> set (map c_hash (commits_tbl (tables d))) \<longrightarrow>
        fst (cmd_commit_store L a r e0) = 1 \<and> fst (snd (cmd_commit_store L a r e0)) = r)"
proof -
  have 1: "fst (scribe_db_store_commit a (Some d) (Some e)) = SCRIBE_ERR_DB \<and>
      fst (snd (scribe_db_store_commit a (Some d) (Some e))) = Some d"
    if "scribe_hash_to_hex (commit_id e) \<in> set (map c_hash (commits_tbl (tables d)))" for a d
    using that by (rule db_store_commit_duplicate)
  have 2: "scribe_hash_to_hex (commit_id e) \<notin> set (map c_hash (commits_tbl (tables d))) \<and>
        fst (scribe_db_store_commit a2 (fst (snd (scribe_db_store_commit a (Some d) (Some e)))) (Some e))
          = SCRIBE_ERR_DB \<and>
        fst (snd (scribe_db_store_commit a2 (fst (snd (scribe_db_store_commit a (Some d) (Some e)))) (Some e)))
          = fst (snd (scribe_db_store_commit a (Some d) (Some e)))"
    if ok: "fst (scribe_db_store_commit a (Some d) (Some e)) = SCRIBE_OK"
  proof -
    obtain err d1 a' where st: "scribe_db_store_commit a (Some d) (Some e) = (err, d1, a')"
      by (cases "scribe_db_store_commit a (Some d) (Some e)") auto
    with ok have err: "err = SCRIBE_OK" by simp
    from db_store_commit_result [OF st] err obtain d' where d': "d1 = Some d'"
      "scribe_hash_to_hex (commit_id e) \<notin> set (map c_hash (commits_tbl (tables d)))"
      "map c_hash (commits_tbl (tables d')) =
         map c_hash (commits_tbl (tables d)) @ [scribe_hash_to_hex (commit_id e)]"
      by blast
    then have "scribe_hash_to_hex (commit_id e) \<in> set (map c_hash (commits_tbl (tables d')))"
      by simp
    from 1 [OF this, of a2] st d' show ?thesis by simp
  qed
  have 3: "fst (cmd_commit_store L a r e0) = 1 \<and> fst (snd (cmd_commit_store L a r e0)) = r"
    if "repo_db r = Some d" "scribe_envelope_finalize L a (Some e0) = (SCRIBE_OK, Some e, a1)"
       "scribe_hash_to_hex (commit_id e) \<in> set (map c_hash (commits_tbl (tables d)))"
  proof -
    obtain err d1 a' where st: "scribe_db_store_commit a1 (Some d) (Some e) = (err, d1, a')"
      by (cases "scribe_db_store_commit a1 (Some d) (Some e)") auto
    with 1 [OF that(3), of a1] have "err = SCRIBE_ERR_DB" "d1 = Some d" by simp_all
    with st that(1,2) show ?thesis
      by (simp add: cmd_commit_store_def scribe_repo_store_commit_def)
  qed
  from 1 2 3 show ?thesis by blast
qed

theorem store_commit_duplicate_witness:
  "fst (scribe_db_store_commit [] (Some sample_db) (Some sample_env)) = SCRIBE_OK
   \<and> scribe_hash_to_hex (commit_id sample_env) \<notin> set (map c_hash (commits_tbl (tables sample_db)))
   \<and> fst (scribe_db_store_commit []
        (fst (snd (scribe_db_store_commit [] (Some sample_db) (Some sample_env)))) (Some sample_env))
       = SCRIBE_ERR_DB"
proof -
  have h: "fst (scribe_db_store_commit [] (Some sample_db) (Some sample_env)) = SCRIBE_OK"
    by (simp add: sample_store)
  from store_commit_duplicate [of sample_env sample_db "[]" "[]"] h show ?thesis by simp
qed

subsection \<open>History\<close>

lemma history_loop_zero [simp]: "history_loop a T n SCRIBE_ZERO_HASH = ([], a)"
  by (cases n) simp_all

lemma history_loop_faults: "snd (history_loop [] T n c) = []"
  by (induction n arbitrary: c) (simp_all add: case_prod_unfold)

lemma history_loop_props:
  "history_loop [] T n c = (hs, a') \<Longrightarrow>
     length hs \<le> n \<and> SCRIBE_ZERO_HASH \<notin> set hs \<and>
     (n > 0 \<and> c \<noteq> SCRIBE_ZERO_HASH \<longrightarrow> hs \<noteq> [] \<and> hd hs = c) \<and>
     (\<forall>i. Suc i < length hs \<longrightarrow>
        (\<exists>row p. find (\<lambda>r. c_hash r = scribe_hash_to_hex (hs ! i)) (commits_tbl T) = Some row \<and>
                 c_parent_hash row = Some p \<and>
                 snd (scribe_hash_from_hex (Some p) (hs ! i)) = hs ! Suc i)) \<and>
     (hs \<noteq> [] \<and> length hs < n \<longrightarrow>
        (case find (\<lambda>r. c_hash r = scribe_hash_to_hex (last hs)) (commits_tbl T) of
           None \<Rightarrow> True
         | Some row \<Rightarrow>
             (case c_parent_hash row of
                None \<Rightarrow> True
              | Some p \<Rightarrow> snd (scribe_hash_from_hex (Some p) (last hs)) = SCRIBE_ZERO_HASH)))"
proof (induction n arbitrary: c hs a')
  case 0
  then show ?case by simp
next
  case (Suc n)
  show ?case
  proof (cases "c = SCRIBE_ZERO_HASH")
    case True
    with Suc.prems show ?thesis by simp
  next
    case False
    define nxt where "nxt =
      (case find (\<lambda>r. c_hash r = scribe_hash_to_hex c) (commits_tbl T) of
         Some row \<Rightarrow>
           (case c_parent_hash row of
              Some parent \<Rightarrow> snd (scribe_hash_from_hex (Some parent) c)
            | None \<Rightarrow> SCRIBE_ZERO_HASH)
       | None \<Rightarrow> SCRIBE_ZERO_HASH)"
    obtain rest a2 where rest: "history_loop [] T n nxt = (rest, a2)"
      by (cases "history_loop [] T n nxt") auto
    with Suc.prems False have hs: "hs = c # rest"
      by (simp add: nxt_def)
    note IH = Suc.IH [OF rest]
    have link0: "\<exists>row p. find (\<lambda>r. c_hash r = scribe_hash_to_hex c) (commits_tbl T) = Some row \<and>
                 c_parent_hash row = Some p \<and>
                 snd (scribe_hash_from_hex (Some p) c) = rest ! 0" if "rest \<noteq> []"
    proof -
      from that rest have "nxt \<noteq> SCRIBE_ZERO_HASH" by auto
      moreover from that rest have "n > 0" by (cases n) auto
      ultimately have "hd rest = nxt" using IH by simp
      with that have "rest ! 0 = nxt" by (simp add: hd_conv_nth)
      with \<open>nxt \<noteq> SCRIBE_ZERO_HASH\<close> show ?thesis
        by (auto simp: nxt_def split: option.splits)
    qed
    have link: "\<exists>row p. find (\<lambda>r. c_hash r = scribe_hash_to_hex (hs ! i)) (commits_tbl T) = Some row \<and>
                 c_parent_hash row = Some p \<and>
                 snd (scribe_hash_from_hex (Some p) (hs ! i)) = hs ! Suc i" if "Suc i < length hs" for i
    proof (cases i)
      case 0
      with that hs link0 show ?thesis by auto
    next
      case (Suc j)
      with that hs IH show ?thesis by auto
    qed
    have stop: "(case find (\<lambda>r. c_hash r = scribe_hash_to_hex (last hs)) (commits_tbl T) of
           None \<Rightarrow> True
         | Some row \<Rightarrow>
             (case c_parent_hash row of
                None \<Rightarrow> True
              | Some p \<Rightarrow> snd (scribe_hash_from_hex (Some p) (last hs)) = SCRIBE_ZERO_HASH))"
      if "length hs < Suc n"
    proof (cases "rest = []")
      case True
      have "nxt = SCRIBE_ZERO_HASH"
      proof (rule ccontr)
        assume nz: "nxt \<noteq> SCRIBE_ZERO_HASH"
        from that hs True have "n > 0" by simp
        with nz IH True show False by simp
      qed
      with True hs show ?thesis by (auto simp: nxt_def split: option.splits)
    next
      case False
      with hs have l: "last hs = last rest" by simp
      from that hs have "length rest < n" by simp
      with IH False show ?thesis unfolding l by simp
    qed
    from hs IH False link stop show ?thesis by auto
  qed
qed


lemma to_hex_eq_iff [simp]: "scribe_hash_to_hex x = scribe_hash_to_hex y \<longleftrightarrow> x = y"
  using to_hex_inj by auto

lemma chain_rows_append:
  "chain_rows T p (xs @ ys) \<longleftrightarrow>
     chain_rows T p xs \<and> chain_rows T (if xs = [] then p else Some (scribe_hash_to_hex (last xs))) ys"
  by (induction xs arbitrary: p) auto

lemma chain_walk:
  "chain_rows T None ids \<Longrightarrow> ids \<noteq> [] \<Longrightarrow>
     history_loop [] T n (last ids) = (take n (rev ids), [])"
proof (induction ids arbitrary: n rule: rev_induct)
  case Nil
  then show ?case by simp
next
  case (snoc c pre)
  from snoc.prems(1) obtain row where c: "c \<noteq> SCRIBE_ZERO_HASH" "chain_rows T None pre"
    "find (\<lambda>r. c_hash r = scribe_hash_to_hex c) (commits_tbl T) = Some row"
    "c_parent_hash row = (if pre = [] then None else Some (scribe_hash_to_hex (last pre)))"
    by (auto simp: chain_rows_append split: option.splits)
  show ?case
  proof (cases n)
    case 0
    then show ?thesis by simp
  next
    case (Suc m)
    show ?thesis
    proof (cases "pre = []")
      case True
      with c Suc show ?thesis by simp
    next
      case False
      from snoc.IH [OF c(2) False, of m] False c Suc show ?thesis by simp
    qed
  qed
qed

lemma get_ref_ok:
  "scribe_db_get_ref [] (Some d) (Some n) out =
     (case map_of (refs_tbl (tables d)) n of
        None \<Rightarrow> (SCRIBE_ERR_NOT_FOUND, out, [])
      | Some s \<Rightarrow> (SCRIBE_OK,
                    (if length s = 64 then snd (scribe_hash_from_hex (Some s) out)
                     else SCRIBE_ZERO_HASH), []))"
  by (simp add: scribe_db_get_ref_def split: option.splits)

lemma get_history_ok:
  "fst (scribe_db_get_history L [] (Some d) from limit) =
     (if from \<noteq> None \<and> from \<noteq> Some SCRIBE_ZERO_HASH
      then Some (fst (history_loop [] (tables d) (if limit = 0 then 100 else limit) (the from)))
      else if fst (scribe_db_get_ref [] (Some d) (Some ''HEAD'') (uninit_hash L)) \<noteq> SCRIBE_OK \<or>
              fst (snd (scribe_db_get_ref [] (Some d) (Some ''HEAD'') (uninit_hash L))) = SCRIBE_ZERO_HASH
      then None
      else Some (fst (history_loop [] (tables d) (if limit = 0 then 100 else limit)
                   (fst (snd (scribe_db_get_ref [] (Some d) (Some ''HEAD'') (uninit_hash L)))))))"
  by (cases "from")
     (auto simp: scribe_db_get_history_def Let_def get_ref_ok case_prod_unfold
        scribe_hash_is_zero_def bytes_inject split: option.splits)


lemma store_commit_row:
  "scribe_db_store_commit a (Some d) (Some e) = (SCRIBE_OK, d1, a') \<Longrightarrow>
     \<exists>d' row. d1 = Some d' \<and> commits_tbl (tables d') = commits_tbl (tables d) @ [row] \<and>
       refs_tbl (tables d') = refs_tbl (tables d) \<and>
       c_hash row = scribe_hash_to_hex (commit_id e) \<and>
       c_parent_hash row = (if parent_id e = SCRIBE_ZERO_HASH then None
                            else Some (scribe_hash_to_hex (parent_id e))) \<and>
       c_hash row \<notin> set (map c_hash (commits_tbl (tables d)))"
  by (auto simp: scribe_db_store_commit_def sql_insert_commit_def Let_def
        split: prod.splits bool.splits option.splits if_splits
        dest!: store_changes_keeps)

lemma finalize_parent:
  "scribe_envelope_finalize L a (Some e) = (err, Some e1, a1) \<Longrightarrow> parent_id e1 = parent_id e"
  by (auto simp: scribe_envelope_finalize_def Let_def split: prod.splits option.splits if_splits)

lemma find_append_row:
  "c_hash row \<notin> set (map c_hash rows) \<Longrightarrow>
     find (\<lambda>r. c_hash r = h) (rows @ [row]) =
       (if h \<in> set (map c_hash rows) then find (\<lambda>r. c_hash r = h) rows
        else if c_hash row = h then Some row else None)"
  by (induction rows) auto

lemma find_Some_mem: "find P xs = Some x \<Longrightarrow> x \<in> set xs \<and> P x"
  by (induction xs) (auto split: if_splits)

lemma chain_rows_extend:
  assumes "commits_tbl T' = commits_tbl T @ [row]" "c_hash row \<notin> set (map c_hash (commits_tbl T))"
  shows "chain_rows T p ids \<Longrightarrow> chain_rows T' p ids"
proof (induction ids arbitrary: p)
  case Nil
  then show ?case by simp
next
  case (Cons c cs)
  from Cons.prems obtain r where r: "find (\<lambda>r. c_hash r = scribe_hash_to_hex c) (commits_tbl T) = Some r"
    by (auto split: option.splits)
  then have "r \<in> set (commits_tbl T)" "c_hash r = scribe_hash_to_hex c"
    by (auto dest: find_Some_mem)
  then have "scribe_hash_to_hex c \<in> set (map c_hash (commits_tbl T))"
    by (metis image_eqI set_map)
  with assms r have "find (\<lambda>r. c_hash r = scribe_hash_to_hex c) (commits_tbl T') = Some r"
    by (simp add: find_append_row)
  with Cons r show ?case by simp
qed

lemma commit_extends_chain:
  assumes db: "repo_db r = Some d"
    and ch: "chain_rows (tables d) None ids"
    and par: "parent_id e0 = (if ids = [] then SCRIBE_ZERO_HASH else last ids)"
    and ok: "fst (cmd_commit_store L a r e0) = 0"
    and fin: "fst (snd (scribe_envelope_finalize L a (Some e0))) = Some e1"
    and nz: "commit_id e1 \<noteq> SCRIBE_ZERO_HASH"
  shows "\<exists>d'. repo_db (fst (snd (cmd_commit_store L a r e0))) = Some d' \<and>
           is_chain (tables d') (ids @ [commit_id e1])"
proof -
  obtain err a1 where f: "scribe_envelope_finalize L a (Some e0) = (err, Some e1, a1)"
    using fin by (cases "scribe_envelope_finalize L a (Some e0)") auto
  obtain err2 d1 a2 where st: "scribe_db_store_commit a1 (Some d) (Some e1) = (err2, d1, a2)"
    by (cases "scribe_db_store_commit a1 (Some d) (Some e1)") auto
  from db_store_commit_result [OF st] obtain d2 where d2: "d1 = Some d2" by blast
  obtain err3 d3 a3 where sr: "scribe_db_set_ref a2 (Some d2) (Some ''HEAD'') (Some (commit_id e1)) = (err3, d3, a3)"
    by (cases "scribe_db_set_ref a2 (Some d2) (Some ''HEAD'') (Some (commit_id e1))") auto
  from db_set_ref_result [OF sr] obtain d4 where d4: "d3 = Some d4"
    "commits_tbl (tables d4) = commits_tbl (tables d2)"
    "err3 = SCRIBE_OK \<longrightarrow> map_of (refs_tbl (tables d4)) ''HEAD'' = Some (scribe_hash_to_hex (commit_id e1))"
    by blast
  from ok f st d2 sr d4 db have codes: "err = SCRIBE_OK" "err2 = SCRIBE_OK" "err3 = SCRIBE_OK"
    and res: "fst (snd (cmd_commit_store L a r e0)) = r\<lparr>repo_db := Some d4\<rparr>"
    by (auto simp: cmd_commit_store_def scribe_repo_store_commit_def scribe_repo_set_head_def
          split: if_splits)
  from store_commit_row [OF st [unfolded codes]] d2 obtain row where
    row: "commits_tbl (tables d2) = commits_tbl (tables d) @ [row]"
      "c_hash row = scribe_hash_to_hex (commit_id e1)"
      "c_parent_hash row = (if parent_id e1 = SCRIBE_ZERO_HASH then None
                            else Some (scribe_hash_to_hex (parent_id e1)))"
      "c_hash row \<notin> set (map c_hash (commits_tbl (tables d)))"
    by auto
  have tbl: "commits_tbl (tables d4) = commits_tbl (tables d) @ [row]"
    using d4(2) row(1) by simp
  have old: "chain_rows (tables d4) None ids"
    using chain_rows_extend [OF tbl row(4) ch] .
  have fnd: "find (\<lambda>r. c_hash r = scribe_hash_to_hex (commit_id e1)) (commits_tbl (tables d4)) = Some row"
    using row(2,4) by (simp add: tbl find_append_row)
  have pid: "parent_id e1 = (if ids = [] then SCRIBE_ZERO_HASH else last ids)"
    using finalize_parent [OF f] par by simp
  have lastnz: "last ids \<noteq> SCRIBE_ZERO_HASH" if "ids \<noteq> []"
    using ch that by (cases ids rule: rev_cases) (auto simp: chain_rows_append)
  have new: "chain_rows (tables d4) (if ids = [] then None else Some (scribe_hash_to_hex (last ids)))
               [commit_id e1]"
    using nz fnd row(3) pid lastnz by auto
  have "is_chain (tables d4) (ids @ [commit_id e1])"
    using old new d4(3) codes(3) by (simp add: is_chain_def chain_rows_append)
  with res show ?thesis by simp
qed

text \<open>
  Claim C6.  With no failing acquisition, \<open>scribe_db_get_history\<close>
  \<^item> treats a limit of zero as 100;
  \<^item> starts at \<open>from\<close> when it is given and non-zero, and otherwise at the digest that
    \<open>HEAD\<close> resolves to, returning no list when \<open>HEAD\<close> is missing or resolves to zero;
  \<^item> returns at most \<open>limit\<close> identifiers, none of them zero, newest first: each one is
    followed by the parent recorded in its commit row (the hex text parsed by
    \<open>scribe_hash_from_hex\<close>);
  \<^item> when it returns fewer than \<open>limit\<close>, it stopped because the last identifier has no
    commit row, or a \<open>NULL\<close> parent, or a parent that parses to zero;
  \<^item> on a chain of \<open>k\<close> commits returns exactly the \<open>k\<close> identifiers in reverse creation
    order, both for limit \<open>k\<close> and for limit \<open>k + 1\<close>;
  \<^item> and such chains are what commits build: when \<open>cmd_commit\<close> stores an envelope
    parented to the last identifier of a chain (to zero on an empty store) and exits
    with 0, the store holds the chain extended by the new, non-zero identifier.
\<close>

theorem get_history_walk:
  "fst (scribe_db_get_history L [] (Some d) from 0) = fst (scribe_db_get_history L [] (Some d) from 100)
   \<and> (\<forall>f. from = Some f \<and> f \<noteq> SCRIBE_ZERO_HASH \<longrightarrow>
         (\<exists>hs. fst (scribe_db_get_history L [] (Some d) from limit) = Some hs \<and> hs \<noteq> [] \<and> hd hs = f))
   \<and> (from = None \<or> from = Some SCRIBE_ZERO_HASH \<longrightarrow>
         (if fst (scribe_db_get_ref [] (Some d) (Some ''HEAD'') (uninit_hash L)) \<noteq> SCRIBE_OK \<or>
             fst (snd (scribe_db_get_ref [] (Some d) (Some ''HEAD'') (uninit_hash L))) = SCRIBE_ZERO_HASH
          then fst (scribe_db_get_history L [] (Some d) from limit) = None
          else (\<exists>hs. fst (scribe_db_get_history L [] (Some d) from limit) = Some hs \<and> hs \<noteq> [] \<and>
                  hd hs = fst (snd (scribe_db_get_ref [] (Some d) (Some ''HEAD'') (uninit_hash L))))))
   \<and> (\<forall>hs. fst (scribe_db_get_history L [] (Some d) from limit) = Some hs \<longrightarrow>
         length hs \<le> (if limit = 0 then 100 else limit) \<and>
         SCRIBE_ZERO_HASH \<notin> set hs \<and>
         (\<forall>i. Suc i < length hs \<longrightarrow>
            (\<exists>row p. find (\<lambda>r. c_hash r = scribe_hash_to_hex (hs ! i)) (commits_tbl (tables d)) = Some row \<and>
                     c_parent_hash row = Some p \<and>
                     snd (scribe_hash_from_hex (Some p) (hs ! i)) = hs ! Suc i)) \<and>
         (length hs < (if limit = 0 then 100 else limit) \<longrightarrow>
            (case find (\<lambda>r. c_hash r = scribe_hash_to_hex (last hs)) (commits_tbl (tables d)) of
               None \<Rightarrow> True
             | Some row \<Rightarrow>
                 (case c_parent_hash row of
                    None \<Rightarrow> True
                  | Some p \<Rightarrow> snd (scribe_hash_from_hex (Some p) (last hs)) = SCRIBE_ZERO_HASH))))
   \<and> (\<forall>ids. is_chain (tables d) ids \<longrightarrow>
         fst (scribe_db_get_history L [] (Some d) None (length ids)) = Some (rev ids) \<and>
         fst (scribe_db_get_history L [] (Some d) None (length ids + 1)) = Some (rev ids))
   \<and> (\<forall>ids r a e0 e1.
         repo_db r = Some d \<and> chain_rows (tables d) None ids \<and>
         parent_id e0 = (if ids = [] then SCRIBE_ZERO_HASH else last ids) \<and>
         fst (cmd_commit_store L a r e0) = 0 \<and>
         fst (snd (scribe_envelope_finalize L a (Some e0))) = Some e1 \<and>
         commit_id e1 \<noteq> SCRIBE_ZERO_HASH \<longrightarrow>
         (\<exists>d'. repo_db (fst (snd (cmd_commit_store L a r e0))) = Some d' \<and>
               is_chain (tables d') (ids @ [commit_id e1])))"
proof -
  let ?lim = "if limit = 0 then 100 else limit"
  let ?head = "fst (snd (scribe_db_get_ref [] (Some d) (Some ''HEAD'') (uninit_hash L)))"
  have props: "length hs \<le> n \<and> SCRIBE_ZERO_HASH \<notin> set hs \<and>
     (n > 0 \<and> c \<noteq> SCRIBE_ZERO_HASH \<longrightarrow> hs \<noteq> [] \<and> hd hs = c) \<and>
     (\<forall>i. Suc i < length hs \<longrightarrow>
        (\<exists>row p. find (\<lambda>r. c_hash r = scribe_hash_to_hex (hs ! i)) (commits_tbl (tables d)) = Some row \<and>
                 c_parent_hash row = Some p \<and>
                 snd (scribe_hash_from_hex (Some p) (hs ! i)) = hs ! Suc i)) \<and>
     (hs \<noteq> [] \<and> length hs < n \<longrightarrow>
        (case find (\<lambda>r. c_hash r = scribe_hash_to_hex (last hs)) (commits_tbl (tables d)) of
           None \<Rightarrow> True
         | Some row \<Rightarrow>
             (case c_parent_hash row of
                None \<Rightarrow> True
              | Some p \<Rightarrow> snd (scribe_hash_from_hex (Some p) (last hs)) = SCRIBE_ZERO_HASH)))"
    if "hs = fst (history_loop [] (tables d) n c)" for hs n c
    using history_loop_props [of "tables d" n c hs "snd (history_loop [] (tables d) n c)"] that
    by simp
  have lim: "?lim > 0" by simp
  have 1: "fst (scribe_db_get_history L [] (Some d) from 0) = fst (scribe_db_get_history L [] (Some d) from 100)"
    by (simp add: get_history_ok)
  have 2: "\<exists>hs. fst (scribe_db_get_history L [] (Some d) from limit) = Some hs \<and> hs \<noteq> [] \<and> hd hs = f"
    if "from = Some f" "f \<noteq> SCRIBE_ZERO_HASH" for f
    using that props [OF refl, of ?lim f] lim by (simp add: get_history_ok)
  have 3: "(if fst (scribe_db_get_ref [] (Some d) (Some ''HEAD'') (uninit_hash L)) \<noteq> SCRIBE_OK \<or>
             ?head = SCRIBE_ZERO_HASH
          then fst (scribe_db_get_history L [] (Some d) from limit) = None
          else (\<exists>hs. fst (scribe_db_get_history L [] (Some d) from limit) = Some hs \<and> hs \<noteq> [] \<and>
                  hd hs = ?head))"
    if "from = None \<or> from = Some SCRIBE_ZERO_HASH"
    using that props [OF refl, of ?lim ?head] lim by (auto simp: get_history_ok)
  have 4: "length hs \<le> ?lim \<and>
         SCRIBE_ZERO_HASH \<notin> set hs \<and>
         (\<forall>i. Suc i < length hs \<longrightarrow>
            (\<exists>row p. find (\<lambda>r. c_hash r = scribe_hash_to_hex (hs ! i)) (commits_tbl (tables d)) = Some row \<and>
                     c_parent_hash row = Some p \<and>
                     snd (scribe_hash_from_hex (Some p) (hs ! i)) = hs ! Suc i)) \<and>
         (length hs < ?lim \<longrightarrow>
            (case find (\<lambda>r. c_hash r = scribe_hash_to_hex (last hs)) (commits_tbl (tables d)) of
               None \<Rightarrow> True
             | Some row \<Rightarrow>
                 (case c_parent_hash row of
                    None \<Rightarrow> True
                  | Some p \<Rightarrow> snd (scribe_hash_from_hex (Some p) (last hs)) = SCRIBE_ZERO_HASH)))"
    if res: "fst (scribe_db_get_history L [] (Some d) from limit) = Some hs" for hs
  proof -
    from res obtain c where c: "hs = fst (history_loop [] (tables d) ?lim c)" "c \<noteq> SCRIBE_ZERO_HASH"
      by (auto simp: get_history_ok split: if_splits)
    from props [OF c(1)] c(2) lim show ?thesis by auto
  qed
  have 5: "fst (scribe_db_get_history L [] (Some d) None (length ids)) = Some (rev ids) \<and>
         fst (scribe_db_get_history L [] (Some d) None (length ids + 1)) = Some (rev ids)"
    if "is_chain (tables d) ids" for ids
  proof -
    from that have ne: "ids \<noteq> []" and ch: "chain_rows (tables d) None ids"
      and hd: "map_of (refs_tbl (tables d)) ''HEAD'' = Some (scribe_hash_to_hex (last ids))"
      by (simp_all add: is_chain_def)
    from ch ne have nz: "last ids \<noteq> SCRIBE_ZERO_HASH"
      by (cases ids rule: rev_cases) (auto simp: chain_rows_append)
    from ne have len: "length ids \<noteq> 0" by simp
    have w1: "history_loop [] (tables d) (length ids) (last ids) = (rev ids, [])"
      using chain_walk [OF ch ne, of "length ids"] by simp
    have w2: "history_loop [] (tables d) (Suc (length ids)) (last ids) = (rev ids, [])"
      using chain_walk [OF ch ne, of "Suc (length ids)"] by simp
    show ?thesis
      using hd nz len w1 w2
      by (simp add: get_history_ok get_ref_ok del: history_loop.simps)
  qed
  have 6: "\<exists>d'. repo_db (fst (snd (cmd_commit_store L a r e0))) = Some d' \<and>
               is_chain (tables d') (ids @ [commit_id e1])"
    if "repo_db r = Some d" "chain_rows (tables d) None ids"
       "parent_id e0 = (if ids = [] then SCRIBE_ZERO_HASH else last ids)"
       "fst (cmd_commit_store L a r e0) = 0"
       "fst (snd (scribe_envelope_finalize L a (Some e0))) = Some e1"
       "commit_id e1 \<noteq> SCRIBE_ZERO_HASH" for ids r a e0 e1
    using that by (rule commit_extends_chain)
  from 1 2 3 4 5 6 show ?thesis by blast
qed

lemma digests_distinct [simp]:
  "digest_B \<noteq> SCRIBE_ZERO_HASH" "digest_A \<noteq> digest_B" "digest_B \<noteq> digest_A"
  by (simp_all add: digest_A_def digest_B_def SCRIBE_ZERO_HASH_def Hash_inject)

theorem get_history_walk_witness:
  "is_chain (tables chain_db) [digest_A, digest_B]
   \<and> fst (scribe_db_get_history sample_ext [] (Some chain_db) None 2) = Some [digest_B, digest_A]
   \<and> fst (scribe_db_get_history sample_ext [] (Some chain_db) None 3) = Some [digest_B, digest_A]"
proof -
  have h: "is_chain (tables chain_db) [digest_A, digest_B]"
    by (simp add: is_chain_def chain_db_def)
  from get_history_walk [of sample_ext chain_db None 0] h
  have "fst (scribe_db_get_history sample_ext [] (Some chain_db) None (length [digest_A, digest_B]))
          = Some (rev [digest_A, digest_B])
      \<and> fst (scribe_db_get_history sample_ext [] (Some chain_db) None (length [digest_A, digest_B] + 1))
          = Some (rev [digest_A, digest_B])"
    by blast
  with h show ?thesis by (simp add: eval_nat_numeral)
qed

subsection \<open>Inclusion proofs at the two-leaf tree\<close>

lemma pair_tree_build:
  "scribe_merkle_build sample_ext []
     (fst (snd (scribe_merkle_add_hash []
        (fst (snd (scribe_merkle_add_hash [] (fst (scribe_merkle_tree_new []))
                     (Some ''before'') (Some digest_A))))
        (Some ''after'') (Some digest_B))))
   = (SCRIBE_OK, Some built_pair_tree, [])"
  by (simp add: scribe_merkle_add_hash_def expand_leaves_def scribe_merkle_build_def
        build_levels.simps built_pair_tree_def pair_tree_def)

lemma sample_internal:
  "hash_internal sample_ext l r = Hash (rev (bytes r))"
  by (simp add: hash_internal_def sample_ext_def)

text \<open>
  At the built two-leaf tree and the stand-in digest: the proof for leaf 0 has depth 1
  with a zero sibling, and verifying it against the leaf's digest and the tree's root
  fails.
\<close>

theorem proof_create_zero_siblings_witness:
  "built built_pair_tree \<and> 0 < length (leaves built_pair_tree)
   \<and> fst (scribe_merkle_proof_create [] (Some built_pair_tree) 0)
       = Some \<lparr>hashes = [SCRIBE_ZERO_HASH], positions = [0], depth = 1\<rparr>
   \<and> \<not> fst (scribe_merkle_proof_verify sample_ext []
              (fst (scribe_merkle_proof_create [] (Some built_pair_tree) 0))
              (Some digest_A) (scribe_merkle_root (Some built_pair_tree)))"
proof -
  have h: "built built_pair_tree" "0 < length (leaves built_pair_tree)"
    by (simp_all add: built_pair_tree_def pair_tree_def)
  have d: "tree_depth (length (leaves built_pair_tree)) 0 = 1"
    by (simp add: built_pair_tree_def pair_tree_def tree_depth.simps)
  have r: "scribe_merkle_root (Some built_pair_tree) = Some (hash_internal sample_ext digest_A digest_B)"
    by (simp add: scribe_merkle_root_def built_pair_tree_def pair_tree_def)
  have ne: "hash_internal sample_ext digest_A SCRIBE_ZERO_HASH \<noteq> hash_internal sample_ext digest_A digest_B"
    by (simp add: sample_internal digest_B_def SCRIBE_ZERO_HASH_def Hash_inject)
  note t = proof_create_zero_siblings [OF h, of sample_ext digest_A "hash_internal sample_ext digest_A digest_B"]
  from t [THEN conjunct1] d have c1: "fst (scribe_merkle_proof_create [] (Some built_pair_tree) 0)
       = Some \<lparr>hashes = [SCRIBE_ZERO_HASH], positions = [0], depth = 1\<rparr>"
    by simp
  from t [THEN conjunct2] d ne have c2: "\<not> fst (scribe_merkle_proof_verify sample_ext []
              (fst (scribe_merkle_proof_create [] (Some built_pair_tree) 0))
              (Some digest_A) (Some (hash_internal sample_ext digest_A digest_B)))"
    by simp
  show ?thesis unfolding r using h c1 c2 by blast
qed

subsection \<open>What finalization hashes\<close>

text \<open>
  The text that a digest member shows is the text in its array when the document is
  written.  So within the loop over the changes a digest is shown only if no later change
  converts a digest in the same block: the \<open>after\<close> digest of the first of two changes does
  not reach the document, whatever the places of the arrays.
\<close>

lemma changes_json_after_alias:
  assumes "a \<noteq> SCRIBE_ZERO_HASH" "a' \<noteq> SCRIBE_ZERO_HASH" "after_hash c \<noteq> SCRIBE_ZERO_HASH"
  shows "changes_json L [c0\<lparr>after_hash := a\<rparr>, c] fr = changes_json L [c0\<lparr>after_hash := a'\<rparr>, c] fr"
  using assms
  by (auto simp: change_json_def add_hex_def case_prod_unfold fun_eq_iff)

lemma envelope_doc_after_alias:
  assumes "a \<noteq> SCRIBE_ZERO_HASH" "a' \<noteq> SCRIBE_ZERO_HASH" "after_hash c \<noteq> SCRIBE_ZERO_HASH"
    and "changes e = [c0\<lparr>after_hash := a\<rparr>, c]" "changes e' = [c0\<lparr>after_hash := a'\<rparr>, c]"
    and "commit_id e = commit_id e'" "parent_id e = parent_id e'" "tree_hash e = tree_hash e'"
    and "author e = author e'" "process e = process e'" "timestamp e = timestamp e'"
        "message e = message e'"
  shows "envelope_doc L e = envelope_doc L e'"
  using assms(4-)
  by (simp add: envelope_doc_def envelope_build_def case_prod_unfold
        changes_json_after_alias [OF assms(1-3)] del: changes_json.simps)

text \<open>
  Where the arrays of \<open>parent_id\<close> and \<open>tree_hash\<close> have the same place, the parent does not
  reach the document of an envelope that has a \<open>tree_hash\<close>.
\<close>

lemma envelope_doc_parent_alias:
  assumes "hex_slot L Hex_parent_id = hex_slot L Hex_tree_hash"
    and "tree_hash e \<noteq> SCRIBE_ZERO_HASH"
    and "parent_id e \<noteq> SCRIBE_ZERO_HASH" "parent_id e' \<noteq> SCRIBE_ZERO_HASH"
    and "commit_id e = commit_id e'" "tree_hash e = tree_hash e'" "changes e = changes e'"
    and "author e = author e'" "process e = process e'" "timestamp e = timestamp e'"
        "message e = message e'"
  shows "envelope_doc L e = envelope_doc L e'"
  using assms
  by (simp add: envelope_doc_def envelope_build_def add_hex_def case_prod_unfold)

text \<open>
  Hence envelopes that differ get the same \<open>commit_id\<close>, for every digest function and every
  writer: two that differ in the \<open>after\<close> digest of the first change, and, where the two
  arrays share a place, two that differ in the parent.
\<close>

lemma finalize_after_collision:
  assumes "tree_hash e \<noteq> SCRIBE_ZERO_HASH"
    and "a \<noteq> SCRIBE_ZERO_HASH" "a' \<noteq> SCRIBE_ZERO_HASH" "after_hash c \<noteq> SCRIBE_ZERO_HASH"
  shows "map_option commit_id (fst (snd (scribe_envelope_finalize L []
             (Some (e\<lparr>changes := [c0\<lparr>after_hash := a\<rparr>, c]\<rparr>)))))
       = map_option commit_id (fst (snd (scribe_envelope_finalize L []
             (Some (e\<lparr>changes := [c0\<lparr>after_hash := a'\<rparr>, c]\<rparr>)))))"
proof -
  let ?e = "e\<lparr>changes := [c0\<lparr>after_hash := a\<rparr>, c]\<rparr>"
  let ?e' = "e\<lparr>changes := [c0\<lparr>after_hash := a'\<rparr>, c]\<rparr>"
  have t: "finalized_tree_hash L ?e = tree_hash e" "finalized_tree_hash L ?e' = tree_hash e"
    using assms(1) by (simp_all add: finalized_tree_hash_def)
  have 1: "envelope_doc L (?e\<lparr>tree_hash := tree_hash e\<rparr>) = envelope_doc L (?e'\<lparr>tree_hash := tree_hash e\<rparr>)"
    by (rule envelope_doc_after_alias [OF assms(2-4)]) simp_all
  have 2: "envelope_doc L (?e\<lparr>tree_hash := tree_hash e, commit_id := SCRIBE_ZERO_HASH\<rparr>)
         = envelope_doc L (?e'\<lparr>tree_hash := tree_hash e, commit_id := SCRIBE_ZERO_HASH\<rparr>)"
    by (rule envelope_doc_after_alias [OF assms(2-4)]) simp_all
  show ?thesis
    by (simp only: finalize_ok t Let_def 1 2) (simp split: option.splits)
qed

lemma finalize_parent_collision:
  assumes "hex_slot L Hex_parent_id = hex_slot L Hex_tree_hash"
    and "tree_hash e \<noteq> SCRIBE_ZERO_HASH" "p \<noteq> SCRIBE_ZERO_HASH" "p' \<noteq> SCRIBE_ZERO_HASH"
  shows "map_option commit_id (fst (snd (scribe_envelope_finalize L [] (Some (e\<lparr>parent_id := p\<rparr>)))))
       = map_option commit_id (fst (snd (scribe_envelope_finalize L [] (Some (e\<lparr>parent_id := p'\<rparr>)))))"
proof -
  let ?e = "e\<lparr>parent_id := p\<rparr>"
  let ?e' = "e\<lparr>parent_id := p'\<rparr>"
  have t: "finalized_tree_hash L ?e = tree_hash e" "finalized_tree_hash L ?e' = tree_hash e"
    using assms(2) by (simp_all add: finalized_tree_hash_def)
  have 1: "envelope_doc L (?e\<lparr>tree_hash := tree_hash e\<rparr>) = envelope_doc L (?e'\<lparr>tree_hash := tree_hash e\<rparr>)"
    using assms by (intro envelope_doc_parent_alias) simp_all
  have 2: "envelope_doc L (?e\<lparr>tree_hash := tree_hash e, commit_id := SCRIBE_ZERO_HASH\<rparr>)
         = envelope_doc L (?e'\<lparr>tree_hash := tree_hash e, commit_id := SCRIBE_ZERO_HASH\<rparr>)"
    using assms by (intro envelope_doc_parent_alias) simp_all
  show ?thesis
    by (simp only: finalize_ok t Let_def 1 2) (simp split: option.splits)
qed

text \<open>The concrete envelope: its digests as text, its two documents and their checksums.\<close>

lemma replicate_32:
  "replicate 32 x = [x, x, x, x, x, x, x, x, x, x, x, x, x, x, x, x,
                     x, x, x, x, x, x, x, x, x, x, x, x, x, x, x, x]"
  by (simp add: eval_nat_numeral)

lemma hex_digest_A:
  "scribe_hash_to_hex digest_A = ''0101010101010101010101010101010101010101010101010101010101010101''"
  by (simp add: scribe_hash_to_hex_def digest_A_def hex_chars_def replicate_32)

lemma hex_digest_B:
  "scribe_hash_to_hex digest_B = ''0202020202020202020202020202020202020202020202020202020202020202''"
  by (simp add: scribe_hash_to_hex_def digest_B_def hex_chars_def replicate_32)

lemma compact_write [simp]: "yyjson_mut_write compact_ext d = Some (compact_json d)"
  by (simp add: compact_ext_def)

lemma compact_slot [simp]: "hex_slot compact_ext b = 0"
  by (simp add: compact_ext_def)

lemma compact_digest [simp]: "EVP_sha256 compact_ext = lane_checksum"
  by (simp add: compact_ext_def)

lemma two_insert_tree_hash:
  "hash_internal compact_ext digest_A digest_B =
     Hash [3, 3, 3, 3, 3, 3, 3, 3, 3, 3, 3, 3, 3, 3, 3, 3,
           3, 3, 3, 3, 3, 3, 3, 3, 3, 3, 3, 3, 3, 3, 3, 4]"
  by (simp add: hash_internal_def lane_checksum_def digest_A_def digest_B_def replicate_32)

lemma two_insert_tree_hash_nonzero:
  "hash_internal compact_ext digest_A digest_B \<noteq> SCRIBE_ZERO_HASH"
  by (simp add: two_insert_tree_hash SCRIBE_ZERO_HASH_def Hash_inject replicate_32)

lemma hex_two_insert_tree_hash:
  "scribe_hash_to_hex (hash_internal compact_ext digest_A digest_B)
     = ''0303030303030303030303030303030303030303030303030303030303030304''"
  by (simp add: two_insert_tree_hash scribe_hash_to_hex_def hex_chars_def)

lemma two_insert_finalized_tree_hash:
  "finalized_tree_hash compact_ext two_insert_env = hash_internal compact_ext digest_A digest_B"
  by (simp add: finalized_tree_hash_def two_insert_env_def change_digests_def
        merkle_root_spec.simps [of _ "[digest_A, digest_B]"]
        merkle_root_spec.simps [of _ "[hash_internal compact_ext digest_A digest_B]"])

lemma two_insert_written_doc:
  "t \<noteq> SCRIBE_ZERO_HASH \<Longrightarrow>
   envelope_doc compact_ext (two_insert_env\<lparr>tree_hash := t, commit_id := SCRIBE_ZERO_HASH\<rparr>)
     = two_insert_doc (scribe_hash_to_hex digest_B) (scribe_hash_to_hex digest_B)
         (scribe_hash_to_hex digest_B)"
  by (simp add: envelope_doc_def envelope_build_def change_json_def add_hex_def add_str_def
        two_insert_env_def two_insert_doc_def)

lemma two_insert_canonical_doc:
  "t \<noteq> SCRIBE_ZERO_HASH \<Longrightarrow>
   canonical_doc (two_insert_env\<lparr>tree_hash := t, commit_id := SCRIBE_ZERO_HASH\<rparr>)
     = two_insert_doc (scribe_hash_to_hex t) (scribe_hash_to_hex digest_A)
         (scribe_hash_to_hex digest_B)"
  by (simp add: canonical_doc_def canonical_change_def hex_member_def add_str_def
        two_insert_env_def two_insert_doc_def)

lemma two_insert_checksums_differ:
  "lane_checksum (str_bytes (compact_json
      (two_insert_doc (scribe_hash_to_hex (hash_internal compact_ext digest_A digest_B))
         (scribe_hash_to_hex digest_A) (scribe_hash_to_hex digest_B))))
   \<noteq> lane_checksum (str_bytes (compact_json
      (two_insert_doc (scribe_hash_to_hex digest_B) (scribe_hash_to_hex digest_B)
         (scribe_hash_to_hex digest_B))))"
  by (simp add: two_insert_doc_def json_quote_def decimal.simps hex_digest_A hex_digest_B
        hex_two_insert_tree_hash lane_checksum_def str_bytes_def Hash_inject)

lemma blank_written_doc:
  "envelope_doc compact_ext (blank_env\<lparr>commit_id := SCRIBE_ZERO_HASH\<rparr>)
     = JObj [(''author'', JObj []), (''process'', JObj []), (''timestamp'', JInt 0)]"
  by (simp add: envelope_doc_def envelope_build_def add_hex_def add_str_def blank_env_def)

lemma blank_checksum_nonzero:
  "lane_checksum (str_bytes (compact_json
     (JObj [(''author'', JObj []), (''process'', JObj []), (''timestamp'', JInt 0)])))
   \<noteq> SCRIBE_ZERO_HASH"
  by (simp add: json_quote_def decimal.simps lane_checksum_def str_bytes_def
        SCRIBE_ZERO_HASH_def Hash_inject replicate_32)

text \<open>
  Claim C1 fails on the code.  The envelope \<open>two_insert_env\<close> is finalized with \<open>SCRIBE_OK\<close>,
  but the text that finalization hashes shows the hex of \<open>digest_B\<close> in all three digest
  members, while the canonical serialization of the finalized envelope with \<open>commit_id\<close> set
  to zero shows the hex of the \<open>tree_hash\<close>, of \<open>digest_A\<close> and of \<open>digest_B\<close>; the \<open>commit_id\<close>
  is not \<open>scribe_hash_bytes\<close> of the canonical serialization.  Verification hashes the same
  text as finalization and returns \<open>SCRIBE_OK\<close>.  And where the digest of the second
  serialization cannot be computed, finalization still returns \<open>SCRIBE_OK\<close>, leaves
  \<open>commit_id\<close> zero, and verification of the result returns \<open>SCRIBE_ERR_HASH_MISMATCH\<close>.
\<close>

theorem finalize_hashes_aliased_text:
  "scribe_envelope_finalize compact_ext [] (Some two_insert_env)
     = (SCRIBE_OK, Some two_insert_final, [])
   \<and> fst (scribe_envelope_to_json compact_ext []
            (Some (two_insert_final\<lparr>commit_id := SCRIBE_ZERO_HASH\<rparr>)))
       = Some (compact_json
           (two_insert_doc (scribe_hash_to_hex digest_B) (scribe_hash_to_hex digest_B)
              (scribe_hash_to_hex digest_B)))
   \<and> canonical_json compact_ext two_insert_final
       = Some (compact_json
           (two_insert_doc (scribe_hash_to_hex (tree_hash two_insert_final))
              (scribe_hash_to_hex digest_A) (scribe_hash_to_hex digest_B)))
   \<and> commit_id two_insert_final
       \<noteq> fst (snd (scribe_hash_bytes compact_ext []
             (str_bytes (the (canonical_json compact_ext two_insert_final))) SCRIBE_ZERO_HASH))
   \<and> fst (scribe_envelope_verify compact_ext [] (Some two_insert_final)) = SCRIBE_OK
   \<and> scribe_envelope_finalize compact_ext [True, True, True, True, False] (Some blank_env)
       = (SCRIBE_OK, Some blank_env, [])
   \<and> fst (scribe_envelope_verify compact_ext [] (Some blank_env)) = SCRIBE_ERR_HASH_MISMATCH"
proof -
  note nz = two_insert_tree_hash_nonzero
  have f: "two_insert_final\<lparr>commit_id := SCRIBE_ZERO_HASH\<rparr>
      = two_insert_env\<lparr>tree_hash := hash_internal compact_ext digest_A digest_B,
                        commit_id := SCRIBE_ZERO_HASH\<rparr>"
    by (simp add: two_insert_final_def)
  have c1: "scribe_envelope_finalize compact_ext [] (Some two_insert_env)
      = (SCRIBE_OK, Some two_insert_final, [])"
    by (simp add: finalize_ok Let_def two_insert_finalized_tree_hash
          two_insert_written_doc [OF nz] two_insert_final_def)
  have c2: "fst (scribe_envelope_to_json compact_ext []
            (Some (two_insert_final\<lparr>commit_id := SCRIBE_ZERO_HASH\<rparr>)))
       = Some (compact_json
           (two_insert_doc (scribe_hash_to_hex digest_B) (scribe_hash_to_hex digest_B)
              (scribe_hash_to_hex digest_B)))"
    by (simp add: f two_insert_written_doc [OF nz])
  have th: "tree_hash two_insert_final = hash_internal compact_ext digest_A digest_B"
    by (simp add: two_insert_final_def)
  have c3: "canonical_json compact_ext two_insert_final
       = Some (compact_json
           (two_insert_doc (scribe_hash_to_hex (tree_hash two_insert_final))
              (scribe_hash_to_hex digest_A) (scribe_hash_to_hex digest_B)))"
    by (simp add: canonical_json_def f th two_insert_canonical_doc [OF nz])
  have ci: "commit_id two_insert_final = lane_checksum (str_bytes (compact_json
      (two_insert_doc (scribe_hash_to_hex digest_B) (scribe_hash_to_hex digest_B)
         (scribe_hash_to_hex digest_B))))"
    by (simp add: two_insert_final_def)
  have c4: "commit_id two_insert_final
       \<noteq> fst (snd (scribe_hash_bytes compact_ext []
             (str_bytes (the (canonical_json compact_ext two_insert_final))) SCRIBE_ZERO_HASH))"
    using two_insert_checksums_differ by (simp add: c3 th ci)
  have c5: "fst (scribe_envelope_verify compact_ext [] (Some two_insert_final)) = SCRIBE_OK"
    by (simp add: verify_ok f two_insert_written_doc [OF nz] ci)
  have b: "blank_env\<lparr>commit_id := SCRIBE_ZERO_HASH\<rparr> = blank_env"
    by (simp add: blank_env_def)
  have c6: "scribe_envelope_finalize compact_ext [True, True, True, True, False] (Some blank_env)
       = (SCRIBE_OK, Some blank_env, [])"
    by (simp add: scribe_envelope_finalize_def scribe_envelope_to_json_def scribe_hash_bytes_def
          Let_def b)
       (simp add: blank_env_def)
  have c7: "fst (scribe_envelope_verify compact_ext [] (Some blank_env)) = SCRIBE_ERR_HASH_MISMATCH"
    using blank_checksum_nonzero
    by (simp add: verify_ok blank_written_doc) (simp add: blank_env_def)
  from c1 c2 c3 c4 c5 c6 c7 show ?thesis by blast
qed

end
